theory Spec2Isabelle
  imports Main "HOL-Library.AList"
begin

section \<open>JavaScript values and exceptions\<close>

text \<open>
  The values the service stores and returns. \<open>JNum\<close> holds a number that is an integer,
  \<open>JFloat\<close> any other number, named by a literal that denotes it (its arithmetic is
  floating point and stays outside; two literals of one number are told apart), and by
  \<open>Infinity\<close>, \<open>-Infinity\<close> or \<open>NaN\<close> when it is not finite. \<open>JObj\<close> lists the own enumerable properties of an
  object in enumeration order, \<open>JFun\<close> is any function value and \<open>JCircular\<close> any
  object whose reference graph has a cycle. Strings are lists of 8-bit code units.
\<close>

datatype jsval =
    JUndefined
  | JNull
  | JBool bool
  | JNum int
  | JFloat string
  | JStr string
  | JArr "jsval list"
  | JObj "(string \<times> jsval) list"
  | JFun
  | JCircular

text \<open>
  A thrown exception, as \<open>croak\<close> reads it: its \<open>title\<close> property (absent on the
  standard error objects) and its \<open>message\<close>.
\<close>

datatype js_error = JsError (err_title: "string option") (err_message: string)

definition TypeError :: "string \<Rightarrow> js_error" where
  "TypeError msg = JsError None msg"

definition SyntaxError :: js_error where
  "SyntaxError = JsError None ''Unexpected token in JSON''"

definition SecurityError :: js_error where
  "SecurityError = JsError None ''The operation is insecure.''"

definition QuotaExceededError :: js_error where
  "QuotaExceededError = JsError None ''The quota has been exceeded.''"

text \<open>\<open>!!v\<close>: the truthiness of a value.\<close>

fun truthy :: "jsval \<Rightarrow> bool" where
  "truthy JUndefined = False"
| "truthy JNull = False"
| "truthy (JBool b) = b"
| "truthy (JNum n) = (n \<noteq> 0)"
| "truthy (JStr s) = (s \<noteq> [])"
| "truthy _ = True"

section \<open>The platform's JSON codec\<close>

subsection \<open>\<open>JSON.stringify\<close>\<close>

definition digit_char :: "nat \<Rightarrow> char" where
  "digit_char d = char_of (48 + d)"

fun show_nat :: "nat \<Rightarrow> string" where
  "show_nat n = (if n < 10 then [digit_char n] else show_nat (n div 10) @ [digit_char (n mod 10)])"

declare show_nat.simps [simp del]

definition show_int :: "int \<Rightarrow> string" where
  "show_int i = (if i < 0 then CHR ''-'' # show_nat (nat (- i)) else show_nat (nat i))"

definition hex_char :: "nat \<Rightarrow> char" where
  "hex_char d = (if d < 10 then char_of (48 + d) else char_of (87 + d))"

text \<open>
  The escape of one code unit inside a quoted string: the quote, the backslash, the five
  short control escapes, \<open>\u00xx\<close> for every other control character.
\<close>

definition escape_char :: "char \<Rightarrow> string" where
  "escape_char c =
     (let n = (of_char c :: nat) in
      if n = 34 then [CHR 0x5C, CHR 0x22]
      else if n = 92 then [CHR 0x5C, CHR 0x5C]
      else if n = 8 then [CHR 0x5C, CHR ''b'']
      else if n = 9 then [CHR 0x5C, CHR ''t'']
      else if n = 10 then [CHR 0x5C, CHR ''n'']
      else if n = 12 then [CHR 0x5C, CHR ''f'']
      else if n = 13 then [CHR 0x5C, CHR ''r'']
      else if n < 32 then [CHR 0x5C, CHR ''u'', CHR ''0'', CHR ''0'', hex_char (n div 16), hex_char (n mod 16)]
      else [c])"

definition quote :: "string \<Rightarrow> string" where
  "quote s = CHR 0x22 # concat (map escape_char s) @ [CHR 0x22]"

fun join :: "string list \<Rightarrow> string" where
  "join [] = []"
| "join [x] = x"
| "join (x # y # ys) = x @ CHR '','' # join (y # ys)"

text \<open>
  What serialising one value gives: a text, \<open>undefined\<close> (for \<open>undefined\<close> and for a
  function), or a thrown \<open>TypeError\<close> (for a circular structure).
\<close>

datatype serialized = Text string | NoText | Circular

fun element_text :: "serialized \<Rightarrow> string" where
  "element_text (Text s) = s"
| "element_text _ = ''null''"

fun member_texts :: "(string \<times> serialized) list \<Rightarrow> string list" where
  "member_texts [] = []"
| "member_texts ((k, Text s) # ms) = (quote k @ CHR '':'' # s) # member_texts ms"
| "member_texts ((k, _) # ms) = member_texts ms"

definition non_finite :: "string \<Rightarrow> bool" where
  "non_finite lit = (lit = ''Infinity'' \<or> lit = ''-Infinity'' \<or> lit = ''NaN'')"

fun serialize :: "jsval \<Rightarrow> serialized" where
  "serialize JUndefined = NoText"
| "serialize JFun = NoText"
| "serialize JCircular = Circular"
| "serialize JNull = Text ''null''"
| "serialize (JBool b) = Text (if b then ''true'' else ''false'')"
| "serialize (JNum n) = Text (show_int n)"
| "serialize (JFloat lit) = Text (if non_finite lit then ''null'' else lit)"
| "serialize (JStr s) = Text (quote s)"
| "serialize (JArr xs) =
     (let rs = map serialize xs in
      if Circular \<in> set rs then Circular
      else Text (CHR ''['' # join (map element_text rs) @ '']''))"
| "serialize (JObj kvs) =
     (let rs = map (\<lambda>kv. (fst kv, serialize (snd kv))) kvs in
      if Circular \<in> snd ` set rs then Circular
      else Text (CHR ''{'' # join (member_texts rs) @ ''}''))"

definition JSON_stringify :: "jsval \<Rightarrow> js_error + string option" where
  "JSON_stringify v =
     (case serialize v of
        Text s \<Rightarrow> Inr (Some s)
      | NoText \<Rightarrow> Inr None
      | Circular \<Rightarrow> Inl (TypeError ''Converting circular structure to JSON''))"

subsection \<open>\<open>JSON.parse\<close>\<close>

definition is_ws :: "char \<Rightarrow> bool" where
  "is_ws c = (let n = (of_char c :: nat) in n = 32 \<or> n = 9 \<or> n = 10 \<or> n = 13)"

definition skip_ws :: "string \<Rightarrow> string" where
  "skip_ws s = dropWhile is_ws s"

definition is_digit :: "char \<Rightarrow> bool" where
  "is_digit c = (let n = (of_char c :: nat) in 48 \<le> n \<and> n \<le> 57)"

definition read_digits :: "string \<Rightarrow> int" where
  "read_digits ds = foldl (\<lambda>a c. 10 * a + (of_char c - 48)) 0 ds"

definition hex_val :: "char \<Rightarrow> nat option" where
  "hex_val c =
     (let n = (of_char c :: nat) in
      if 48 \<le> n \<and> n \<le> 57 then Some (n - 48)
      else if 97 \<le> n \<and> n \<le> 102 then Some (n - 87)
      else if 65 \<le> n \<and> n \<le> 70 then Some (n - 55)
      else None)"

definition hex4 :: "char \<Rightarrow> char \<Rightarrow> char \<Rightarrow> char \<Rightarrow> nat option" where
  "hex4 a b c d =
     (case (hex_val a, hex_val b, hex_val c, hex_val d) of
        (Some x, Some y, Some z, Some w) \<Rightarrow> Some (((x * 16 + y) * 16 + z) * 16 + w)
      | _ \<Rightarrow> None)"

definition unescape_char :: "char \<Rightarrow> char option" where
  "unescape_char e =
     (let n = (of_char e :: nat) in
      if n = 34 \<or> n = 92 \<or> n = 47 then Some e
      else if e = CHR ''b'' then Some (CHR 0x08)
      else if e = CHR ''t'' then Some (CHR 0x09)
      else if e = CHR ''n'' then Some (CHR 0x0A)
      else if e = CHR ''f'' then Some (CHR 0x0C)
      else if e = CHR ''r'' then Some (CHR 0x0D)
      else None)"

text \<open>
  The characters of a string literal after its opening quote, up to the closing one. A
  \<open>\uXXXX\<close> escape beyond the 8-bit code units is outside the modelled strings and is
  refused.
\<close>

fun parse_string_body :: "string \<Rightarrow> (string \<times> string) option" where
  "parse_string_body [] = None"
| "parse_string_body (c # cs) =
     (if c = CHR 0x22 then Some ([], cs)
      else if c = CHR 0x5C then
        (case cs of
           [] \<Rightarrow> None
         | e # r \<Rightarrow>
             if e = CHR ''u'' then
               (case r of
                  h1 # h2 # h3 # h4 # r' \<Rightarrow>
                    (case hex4 h1 h2 h3 h4 of
                       None \<Rightarrow> None
                     | Some n \<Rightarrow>
                         if n < 256 then map_option (apfst ((#) (char_of n))) (parse_string_body r')
                         else None)
                | _ \<Rightarrow> None)
             else
               (case unescape_char e of
                  None \<Rightarrow> None
                | Some d \<Rightarrow> map_option (apfst ((#) d)) (parse_string_body r)))
      else if (of_char c :: nat) < 32 then None
      else map_option (apfst ((#) c)) (parse_string_body cs))"

text \<open>
  A number literal: an optional minus sign, digits without a leading zero, an optional
  fraction and an optional exponent. Its value is \<open>JNum\<close> when it is an integer below
  \<open>2^53\<close> in magnitude, which a number holds exactly, and \<open>JFloat\<close> with the literal
  read otherwise. From \<open>2^1024 - 2^970\<close> on the literal is rounded to an infinity.
\<close>

definition max_safe_integer :: int where
  "max_safe_integer = 9007199254740991"

definition double_overflow :: int where
  "double_overflow =
     179769313486231580793728971405303415079934132710037826936173778980444968292764750946649017977587207096330286416692887910946555547851940402630657488671505820681908902000708383676273854845817711531764475730270069855571366959622842914819860834936475292719074168444365510704342711559699508093042880177904174497792"

definition finite_number :: "bool \<Rightarrow> int \<Rightarrow> string \<Rightarrow> jsval" where
  "finite_number neg n lit =
     (if n < double_overflow then JFloat lit
      else JFloat (if neg then ''-Infinity'' else ''Infinity''))"

definition safe_number :: "bool \<Rightarrow> int \<Rightarrow> string \<Rightarrow> jsval" where
  "safe_number neg n lit =
     (if n \<le> max_safe_integer then JNum (if neg then - n else n) else finite_number neg n lit)"

definition number_value :: "bool \<Rightarrow> string \<Rightarrow> string \<Rightarrow> int \<Rightarrow> string \<Rightarrow> jsval" where
  "number_value neg ip fp ex lit =
     (let m = read_digits (ip @ fp); sc = ex - int (length fp) in
      if 0 \<le> sc then safe_number neg (m * 10 ^ nat sc) lit
      else if m mod 10 ^ nat (- sc) = 0 then safe_number neg (m div 10 ^ nat (- sc)) lit
      else finite_number neg (m div 10 ^ nat (- sc)) lit)"

definition parse_number :: "string \<Rightarrow> (jsval \<times> string) option" where
  "parse_number s =
     (let neg = (s \<noteq> [] \<and> hd s = CHR ''-'');
          s1 = (if neg then tl s else s);
          ip = takeWhile is_digit s1;
          r1 = dropWhile is_digit s1;
          has_frac = (r1 \<noteq> [] \<and> hd r1 = CHR ''.'');
          fp = (if has_frac then takeWhile is_digit (tl r1) else []);
          r2 = (if has_frac then dropWhile is_digit (tl r1) else r1);
          has_exp = (r2 \<noteq> [] \<and> (hd r2 = CHR ''e'' \<or> hd r2 = CHR ''E''));
          r3 = (if has_exp then tl r2 else r2);
          has_sign = (has_exp \<and> r3 \<noteq> [] \<and> (hd r3 = CHR ''+'' \<or> hd r3 = CHR ''-''));
          r4 = (if has_sign then tl r3 else r3);
          ep = (if has_exp then takeWhile is_digit r4 else []);
          r5 = (if has_exp then dropWhile is_digit r4 else r2);
          ex = (if has_sign \<and> hd r3 = CHR ''-'' then - read_digits ep else read_digits ep)
      in if ip = [] then None
         else if 1 < length ip \<and> hd ip = CHR ''0'' then None
         else if has_frac \<and> fp = [] then None
         else if has_exp \<and> ep = [] then None
         else Some (number_value neg ip fp ex (take (length s - length r5) s), r5))"

text \<open>Defining a property on an object: an existing name keeps its place.\<close>

definition define_property :: "string \<Rightarrow> 'v \<Rightarrow> (string \<times> 'v) list \<Rightarrow> (string \<times> 'v) list" where
  "define_property k v obj = AList.update k v obj"

definition object_of_members :: "(string \<times> jsval) list \<Rightarrow> (string \<times> jsval) list" where
  "object_of_members ms = foldl (\<lambda>obj kv. define_property (fst kv) (snd kv) obj) [] ms"

text \<open>
  Recursive descent over the text. The first argument bounds the number of nested calls;
  \<open>JSON_parse\<close> starts it above the length of the text, which is enough for every text
  that \<open>JSON.stringify\<close> produces.
\<close>

fun parse_value :: "nat \<Rightarrow> string \<Rightarrow> (jsval \<times> string) option"
  and parse_elements :: "nat \<Rightarrow> string \<Rightarrow> (jsval list \<times> string) option"
  and parse_members :: "nat \<Rightarrow> string \<Rightarrow> ((string \<times> jsval) list \<times> string) option"
where
  "parse_value 0 s = None"
| "parse_value (Suc n) s =
     (case skip_ws s of
        [] \<Rightarrow> None
      | c # cs \<Rightarrow>
          if c = CHR 0x22 then map_option (apfst JStr) (parse_string_body cs)
          else if c = CHR ''['' then
            (case skip_ws cs of
               [] \<Rightarrow> None
             | d # r \<Rightarrow>
                 if d = CHR '']'' then Some (JArr [], r)
                 else map_option (apfst JArr) (parse_elements n cs))
          else if c = CHR ''{'' then
            (case skip_ws cs of
               [] \<Rightarrow> None
             | d # r \<Rightarrow>
                 if d = CHR ''}'' then Some (JObj [], r)
                 else map_option (apfst (\<lambda>ms. JObj (object_of_members ms))) (parse_members n cs))
          else if take 4 (c # cs) = ''null'' then Some (JNull, drop 3 cs)
          else if take 4 (c # cs) = ''true'' then Some (JBool True, drop 3 cs)
          else if take 5 (c # cs) = ''false'' then Some (JBool False, drop 4 cs)
          else parse_number (c # cs))"
| "parse_elements 0 s = None"
| "parse_elements (Suc n) s =
     (case parse_value n s of
        None \<Rightarrow> None
      | Some (v, r) \<Rightarrow>
          (case skip_ws r of
             [] \<Rightarrow> None
           | c # r' \<Rightarrow>
               if c = CHR '','' then map_option (apfst ((#) v)) (parse_elements n r')
               else if c = CHR '']'' then Some ([v], r')
               else None))"
| "parse_members 0 s = None"
| "parse_members (Suc n) s =
     (case skip_ws s of
        [] \<Rightarrow> None
      | c # cs \<Rightarrow>
          if c = CHR 0x22 then
            (case parse_string_body cs of
               None \<Rightarrow> None
             | Some (k, r) \<Rightarrow>
                 (case skip_ws r of
                    [] \<Rightarrow> None
                  | d # r1 \<Rightarrow>
                      if d = CHR '':'' then
                        (case parse_value n r1 of
                           None \<Rightarrow> None
                         | Some (v, r2) \<Rightarrow>
                             (case skip_ws r2 of
                                [] \<Rightarrow> None
                              | e # r3 \<Rightarrow>
                                  if e = CHR '','' then map_option (apfst ((#) (k, v))) (parse_members n r3)
                                  else if e = CHR ''}'' then Some ([(k, v)], r3)
                                  else None))
                      else None))
          else None)"

definition JSON_parse :: "string \<Rightarrow> js_error + jsval" where
  "JSON_parse s =
     (case parse_value (Suc (length s)) s of
        None \<Rightarrow> Inl SyntaxError
      | Some (v, r) \<Rightarrow> if skip_ws r = [] then Inr v else Inl SyntaxError)"

text \<open>
  The values \<open>JSON.stringify\<close> and \<open>JSON.parse\<close> carry: \<open>null\<close>, booleans, the integers
  a number holds exactly, strings, and arrays and objects of such values.
\<close>

fun json_representable :: "jsval \<Rightarrow> bool" where
  "json_representable JNull = True"
| "json_representable (JBool b) = True"
| "json_representable (JNum n) = (\<bar>n\<bar> \<le> max_safe_integer)"
| "json_representable (JStr s) = True"
| "json_representable (JArr xs) = list_all json_representable xs"
| "json_representable (JObj kvs) =
     (distinct (map fst kvs) \<and> list_all (\<lambda>kv. json_representable (snd kv)) kvs)"
| "json_representable _ = False"

section \<open>The browser's storage objects\<close>

type_synonym entries = "(string \<times> string) list"

subsection \<open>The document's cookies\<close>

text \<open>
  \<open>escape\<close> keeps letters, digits and \<open>@*_+-./\<close> and writes every other code unit as
  \<open>%XX\<close>; \<open>unescape\<close> reads \<open>%XX\<close> and \<open>%uXXXX\<close> back (a \<open>%uXXXX\<close> beyond the 8-bit
  code units stays as it is written).
\<close>

definition escape_keeps :: "char \<Rightarrow> bool" where
  "escape_keeps c =
     (let n = (of_char c :: nat) in
      (48 \<le> n \<and> n \<le> 57) \<or> (65 \<le> n \<and> n \<le> 90) \<or> (97 \<le> n \<and> n \<le> 122)
      \<or> n = 64 \<or> n = 42 \<or> n = 95 \<or> n = 43 \<or> n = 45 \<or> n = 46 \<or> n = 47)"

definition hex_upper :: "nat \<Rightarrow> char" where
  "hex_upper d = (if d < 10 then char_of (48 + d) else char_of (55 + d))"

definition escape_unit :: "char \<Rightarrow> string" where
  "escape_unit c =
     (if escape_keeps c then [c]
      else [CHR ''%'', hex_upper (of_char c div 16), hex_upper (of_char c mod 16)])"

definition escape :: "string \<Rightarrow> string" where
  "escape s = concat (map escape_unit s)"

definition unicode_escape :: "string \<Rightarrow> nat option" where
  "unicode_escape cs =
     (case cs of
        u # h1 # h2 # h3 # h4 # r \<Rightarrow>
          if u = CHR ''u'' then
            (case hex4 h1 h2 h3 h4 of Some n \<Rightarrow> if n < 256 then Some n else None | None \<Rightarrow> None)
          else None
      | _ \<Rightarrow> None)"

definition byte_escape :: "string \<Rightarrow> nat option" where
  "byte_escape cs =
     (case cs of
        a # b # r \<Rightarrow>
          (case (hex_val a, hex_val b) of (Some x, Some y) \<Rightarrow> Some (x * 16 + y) | _ \<Rightarrow> None)
      | _ \<Rightarrow> None)"

function unescape :: "string \<Rightarrow> string" where
  "unescape [] = []"
| "unescape (c # cs) =
     (if c = CHR ''%'' then
        (case unicode_escape cs of
           Some n \<Rightarrow> char_of n # unescape (drop 5 cs)
         | None \<Rightarrow>
             (case byte_escape cs of
                Some n \<Rightarrow> char_of n # unescape (drop 2 cs)
              | None \<Rightarrow> c # unescape cs))
      else c # unescape cs)"
  by pat_completeness auto
termination
  by (relation "measure length") auto

declare unescape.simps(2) [simp del]

text \<open>
  The cookies of the document are a list of names and values as they stand in
  \<open>document.cookie\<close>, that is, escaped by whoever wrote them through a polyfill. The
  expiry date, the only difference between the two polyfills, is left out. Assigning a
  cookie replaces the one of that name or adds it; the document keeps a cookie whose name
  and value together have at most 4096 code units and drops a larger one without a sign.
\<close>

definition cookie_capacity :: nat where
  "cookie_capacity = 4096"

definition document_keeps :: "string \<Rightarrow> string \<Rightarrow> bool" where
  "document_keeps name val = (length name + length val \<le> cookie_capacity)"

definition assign_cookie :: "string \<Rightarrow> string \<Rightarrow> entries \<Rightarrow> entries" where
  "assign_cookie name val jar = (if document_keeps name val then AList.update name val jar else jar)"

fun cookie_string :: "entries \<Rightarrow> string" where
  "cookie_string [] = []"
| "cookie_string [nv] = fst nv @ CHR ''='' # snd nv"
| "cookie_string (nv # nv' # jar) =
     fst nv @ CHR ''='' # snd nv @ ''; '' @ cookie_string (nv' # jar)"

text \<open>\<open>document.cookie.match(/\=/g)\<close>: the number of matches, none when there is no match.\<close>

definition match_equals :: "entries \<Rightarrow> nat option" where
  "match_equals jar =
     (let n = length (filter (\<lambda>c. c = CHR ''='') (cookie_string jar))
      in if n = 0 then None else Some n)"

subsection \<open>\<open>localStorage\<close> and \<open>sessionStorage\<close>\<close>

text \<open>
  What the global \<open>localStorage\<close> (or \<open>sessionStorage\<close>) evaluates to:
  \<^item> \<open>Absent\<close>: the property is undefined or \<open>null\<close>, so every member access throws;
  \<^item> \<open>Denied\<close>: the browser refuses access, so reading the global throws;
  \<^item> \<open>Native items quota\<close>: the browser's own store, its entries in enumeration order
    and the number of code units it accepts;
  \<^item> \<open>Polyfill len\<close>: the object installed by \<open>polyfillLocalStorage\<close> or
    \<open>polyfillSessionStorage\<close>, whose entries are the cookies of the document and
    whose own \<open>length\<close> property is \<open>len\<close>.
\<close>

datatype storage =
    Absent
  | Denied
  | Native entries nat
  | Polyfill int

definition storage_size :: "entries \<Rightarrow> nat" where
  "storage_size items = sum_list (map (\<lambda>kv. length (fst kv) + length (snd kv)) items)"

definition null_reference :: js_error where
  "null_reference = TypeError ''Cannot read property of null''"

text \<open>
  \<open>setItem\<close>. The member is looked up before the arguments are evaluated, so the
  second argument is passed as the outcome of its evaluation. The polyfill returns
  early on an empty key; otherwise it assigns the cookie and takes its length from the
  matches of \<open>=\<close> in \<open>document.cookie\<close>, which throws when there is no match.
\<close>

definition storage_setItem ::
  "storage \<Rightarrow> entries \<Rightarrow> string \<Rightarrow> js_error + string \<Rightarrow> js_error + (storage \<times> entries)" where
  "storage_setItem s jar k arg =
     (case s of
        Absent \<Rightarrow> Inl null_reference
      | Denied \<Rightarrow> Inl SecurityError
      | Native items quota \<Rightarrow>
          (case arg of
             Inl e \<Rightarrow> Inl e
           | Inr v \<Rightarrow>
               if quota < storage_size (AList.update k v items) then Inl QuotaExceededError
               else Inr (Native (AList.update k v items) quota, jar))
      | Polyfill len \<Rightarrow>
          (case arg of
             Inl e \<Rightarrow> Inl e
           | Inr v \<Rightarrow>
               if k = [] then Inr (Polyfill len, jar)
               else
                 (case match_equals (assign_cookie (escape k) (escape v) jar) of
                    None \<Rightarrow> Inl null_reference
                  | Some n \<Rightarrow> Inr (Polyfill (int n), assign_cookie (escape k) (escape v) jar))))"

definition storage_getItem :: "storage \<Rightarrow> entries \<Rightarrow> string \<Rightarrow> js_error + string option" where
  "storage_getItem s jar k =
     (case s of
        Absent \<Rightarrow> Inl null_reference
      | Denied \<Rightarrow> Inl SecurityError
      | Native items quota \<Rightarrow> Inr (map_of items k)
      | Polyfill len \<Rightarrow>
          Inr (if k = [] then None else map_option unescape (map_of jar (escape k))))"

definition storage_removeItem ::
  "storage \<Rightarrow> entries \<Rightarrow> string \<Rightarrow> js_error + (storage \<times> entries)" where
  "storage_removeItem s jar k =
     (case s of
        Absent \<Rightarrow> Inl null_reference
      | Denied \<Rightarrow> Inl SecurityError
      | Native items quota \<Rightarrow> Inr (Native (AList.delete k items) quota, jar)
      | Polyfill len \<Rightarrow>
          if k = [] \<or> map_of jar (escape k) = None then Inr (Polyfill len, jar)
          else Inr (Polyfill (len - 1), AList.delete (escape k) jar))"

text \<open>
  \<open>key\<close>. The native store answers \<open>null\<close> out of range; the polyfill indexes the
  cookie names (one empty name when there is no cookie) and unescapes \<open>undefined\<close> out
  of range.
\<close>

definition storage_key :: "storage \<Rightarrow> entries \<Rightarrow> int \<Rightarrow> js_error + jsval" where
  "storage_key s jar n =
     (case s of
        Absent \<Rightarrow> Inl null_reference
      | Denied \<Rightarrow> Inl SecurityError
      | Native items quota \<Rightarrow>
          Inr (if 0 \<le> n \<and> n < int (length items) then JStr (fst (items ! nat n)) else JNull)
      | Polyfill len \<Rightarrow>
          (let names = (if jar = [] then [[]] else map fst jar) in
           Inr (if 0 \<le> n \<and> n < int (length names) then JStr (unescape (names ! nat n))
                else JStr ''undefined'')))"

definition storage_length :: "storage \<Rightarrow> js_error + int" where
  "storage_length s =
     (case s of
        Absent \<Rightarrow> Inl null_reference
      | Denied \<Rightarrow> Inl SecurityError
      | Native items quota \<Rightarrow> Inr (int (length items))
      | Polyfill len \<Rightarrow> Inr len)"

text \<open>The entries an engine's backend holds, as its primitives read them.\<close>

definition storage_entries :: "storage \<Rightarrow> entries \<Rightarrow> entries" where
  "storage_entries s jar =
     (case s of
        Native items quota \<Rightarrow> items
      | Polyfill len \<Rightarrow> jar
      | _ \<Rightarrow> [])"

section \<open>The in-memory object and its prototype\<close>

text \<open>
  \<open>ram\<close> is a plain object. A name it does not hold itself is looked up in its prototype,
  at first \<open>Object.prototype\<close>: its methods, and the accessor \<open>__proto__\<close>, whose getter
  gives the prototype and whose setter replaces it by an object or by \<open>null\<close> and ignores
  every other value. A value that has become the prototype hands on its own members and,
  behind them, those of \<open>Object.prototype\<close>. What a built-in prototype other than
  \<open>Object.prototype\<close> adds, and the members of a function or of a circular structure,
  are not listed.
\<close>

datatype prototype = ObjectPrototype | NullPrototype | ValuePrototype jsval

datatype inherited = NotInherited | Inherited jsval | ProtoAccessor

definition object_prototype_methods :: "string list" where
  "object_prototype_methods =
     [''constructor'', ''toString'', ''toLocaleString'', ''valueOf'', ''hasOwnProperty'',
      ''isPrototypeOf'', ''propertyIsEnumerable'', ''__defineGetter__'', ''__defineSetter__'',
      ''__lookupGetter__'', ''__lookupSetter__'']"

definition inherit_object :: "string \<Rightarrow> inherited" where
  "inherit_object k =
     (if k = ''__proto__'' then ProtoAccessor
      else if k \<in> set object_prototype_methods then Inherited JFun
      else NotInherited)"

fun own_member :: "jsval \<Rightarrow> string \<Rightarrow> jsval option" where
  "own_member (JObj kvs) k = map_of kvs k"
| "own_member (JArr xs) k =
     (if k = ''length'' then Some (JNum (int (length xs)))
      else map_of (zip (map show_nat [0..<length xs]) xs) k)"
| "own_member v k = None"

definition inherit :: "prototype \<Rightarrow> string \<Rightarrow> inherited" where
  "inherit p k =
     (case p of
        ObjectPrototype \<Rightarrow> inherit_object k
      | NullPrototype \<Rightarrow> NotInherited
      | ValuePrototype v \<Rightarrow>
          (case own_member v k of Some m \<Rightarrow> Inherited m | None \<Rightarrow> inherit_object k))"

fun is_object :: "jsval \<Rightarrow> bool" where
  "is_object (JObj kvs) = True"
| "is_object (JArr xs) = True"
| "is_object JFun = True"
| "is_object JCircular = True"
| "is_object v = False"

text \<open>
  What the getter of \<open>__proto__\<close> gives: the prototype; \<open>Object.prototype\<close> is an object
  without enumerable properties.
\<close>

definition prototype_value :: "prototype \<Rightarrow> jsval" where
  "prototype_value p =
     (case p of ObjectPrototype \<Rightarrow> JObj [] | NullPrototype \<Rightarrow> JNull | ValuePrototype v \<Rightarrow> v)"

section \<open>The service\<close>

subsection \<open>Its state\<close>

text \<open>
  The variables of the factory's closure (\<open>errorName\<close> to \<open>ram\<close>), the globals it
  works on (\<open>localStorage\<close>, \<open>sessionStorage\<close>, \<open>cookie\<close> for \<open>document.cookie\<close>), and
  the calls it has made to its collaborators: \<open>broadcasts\<close> for
  \<open>$rootScope.$broadcast\<close> and \<open>warnings\<close> for \<open>console.warn\<close>, oldest first.
  \<open>ram\<close> lists the own properties of the in-memory object, in the order of their
  definition, and \<open>ram_prototype\<close> is its prototype.
\<close>

record state =
  errorName :: string
  hasLocalStorage :: bool
  hasSessionStorage :: bool
  isLocalStoragePolyfilled :: bool
  isSessionStoragePolyfilled :: bool
  order :: "string list"
  prefix :: string
  ram :: "(string \<times> jsval) list"
  ram_prototype :: prototype
  localStorage :: storage
  sessionStorage :: storage
  cookie :: entries
  broadcasts :: "(string \<times> string) list"
  warnings :: "string list"

definition default_prefix :: string where
  "default_prefix = []"

definition default_order :: "string list" where
  "default_order = [''local'', ''session'', ''memory'']"

definition default_errorName :: string where
  "default_errorName = ''webStorage.notification.error''"

definition testKey :: string where
  "testKey = ''webStorage.test.key''"

definition addDeprecatedWarning :: string where
  "addDeprecatedWarning = ''angular-webstorage.js -- `add()` had been deprecated, use `set()` instead''"

definition console_warn :: "state \<Rightarrow> string \<Rightarrow> state" where
  "console_warn st msg = st\<lparr>warnings := warnings st @ [msg]\<rparr>"

text \<open>How string concatenation prints a property that may be missing.\<close>

definition property_text :: "string option \<Rightarrow> string" where
  "property_text p = (case p of None \<Rightarrow> ''undefined'' | Some s \<Rightarrow> s)"

definition croak :: "state \<Rightarrow> js_error \<Rightarrow> bool \<times> state" where
  "croak st e =
     (False,
      st\<lparr>broadcasts := broadcasts st @
            [(errorName st, property_text (err_title e) @ '': '' @ err_message e)]\<rparr>)"

subsection \<open>The local, session and in-memory engines\<close>

text \<open>The string a storage primitive receives for an argument.\<close>

definition item_text :: "js_error + string option \<Rightarrow> js_error + string" where
  "item_text r = (case r of Inl e \<Rightarrow> Inl e | Inr t \<Rightarrow> Inr (property_text t))"

definition setInLocal :: "state \<Rightarrow> string \<Rightarrow> jsval \<Rightarrow> bool \<times> state" where
  "setInLocal st key val =
     (if hasLocalStorage st then
        (case storage_setItem (localStorage st) (cookie st) (prefix st @ key)
                (item_text (JSON_stringify val)) of
           Inl e \<Rightarrow> croak st e
         | Inr (s, jar) \<Rightarrow> (True, st\<lparr>localStorage := s, cookie := jar\<rparr>))
      else (False, st))"

definition setInSession :: "state \<Rightarrow> string \<Rightarrow> jsval \<Rightarrow> bool \<times> state" where
  "setInSession st key val =
     (if hasSessionStorage st then
        (case storage_setItem (sessionStorage st) (cookie st) (prefix st @ key)
                (item_text (JSON_stringify val)) of
           Inl e \<Rightarrow> croak st e
         | Inr (s, jar) \<Rightarrow> (True, st\<lparr>sessionStorage := s, cookie := jar\<rparr>))
      else (False, st))"

text \<open>
  \<open>ram[key] = value\<close>: a name that \<open>ram\<close> does not hold and that resolves to the accessor
  \<open>__proto__\<close> goes to its setter; every other name becomes or stays an own property.
\<close>

definition setInMemory :: "state \<Rightarrow> string \<Rightarrow> jsval \<Rightarrow> bool \<times> state" where
  "setInMemory st key val =
     (if map_of (ram st) key = None \<and> inherit (ram_prototype st) key = ProtoAccessor then
        (True,
         if is_object val then st\<lparr>ram_prototype := ValuePrototype val\<rparr>
         else if val = JNull then st\<lparr>ram_prototype := NullPrototype\<rparr>
         else st)
      else (True, st\<lparr>ram := define_property key val (ram st)\<rparr>))"

text \<open>
  \<open>value && JSON.parse(value)\<close>: a missing item gives \<open>null\<close>, an empty text gives the
  empty string, any other text is parsed.
\<close>

definition parse_item :: "state \<Rightarrow> js_error + string option \<Rightarrow> jsval \<times> state" where
  "parse_item st r =
     (case r of
        Inl e \<Rightarrow> (JNull, snd (croak st e))
      | Inr None \<Rightarrow> (JNull, st)
      | Inr (Some t) \<Rightarrow>
          if t = [] then (JStr [], st)
          else (case JSON_parse t of
                  Inl e \<Rightarrow> (JNull, snd (croak st e))
                | Inr v \<Rightarrow> (v, st)))"

definition getFromLocal :: "state \<Rightarrow> string \<Rightarrow> jsval \<times> state" where
  "getFromLocal st key =
     (if hasLocalStorage st then
        parse_item st (storage_getItem (localStorage st) (cookie st) (prefix st @ key))
      else (JNull, st))"

definition getFromSession :: "state \<Rightarrow> string \<Rightarrow> jsval \<times> state" where
  "getFromSession st key =
     (if hasSessionStorage st then
        parse_item st (storage_getItem (sessionStorage st) (cookie st) (prefix st @ key))
      else (JNull, st))"

text \<open>\<open>key in ram ? ram[key] : null\<close>, through the prototype when \<open>ram\<close> does not hold the name.\<close>

definition getFromMemory :: "state \<Rightarrow> string \<Rightarrow> jsval \<times> state" where
  "getFromMemory st key =
     (case map_of (ram st) key of
        Some v \<Rightarrow> (v, st)
      | None \<Rightarrow>
          (case inherit (ram_prototype st) key of
             NotInherited \<Rightarrow> (JNull, st)
           | Inherited v \<Rightarrow> (v, st)
           | ProtoAccessor \<Rightarrow> (prototype_value (ram_prototype st), st)))"

definition hasInLocal :: "state \<Rightarrow> string \<Rightarrow> bool \<times> state" where
  "hasInLocal st key = (JNull \<noteq> fst (getFromLocal st key), snd (getFromLocal st key))"

definition hasInSession :: "state \<Rightarrow> string \<Rightarrow> bool \<times> state" where
  "hasInSession st key = (JNull \<noteq> fst (getFromSession st key), snd (getFromSession st key))"

definition hasInMemory :: "state \<Rightarrow> string \<Rightarrow> bool \<times> state" where
  "hasInMemory st key = (JNull \<noteq> fst (getFromMemory st key), snd (getFromMemory st key))"

text \<open>\<open>key\<close> and \<open>length\<close> call the backend outside any \<open>try\<close>.\<close>

definition keyInLocal :: "state \<Rightarrow> int \<Rightarrow> js_error + jsval" where
  "keyInLocal st num =
     (if hasLocalStorage st then storage_key (localStorage st) (cookie st) num else Inr JNull)"

definition keyInSession :: "state \<Rightarrow> int \<Rightarrow> js_error + jsval" where
  "keyInSession st num =
     (if hasSessionStorage st then storage_key (sessionStorage st) (cookie st) num else Inr JNull)"

fun keyInMemory_loop :: "int \<Rightarrow> int \<Rightarrow> string list \<Rightarrow> jsval" where
  "keyInMemory_loop index count [] = JNull"
| "keyInMemory_loop index count (k # ks) =
     (if index = count then JStr k
      else if index < count + 1 then JNull
      else keyInMemory_loop index (count + 1) ks)"

definition keyInMemory :: "state \<Rightarrow> int \<Rightarrow> js_error + jsval" where
  "keyInMemory st index = Inr (keyInMemory_loop index 0 (map fst (ram st)))"

definition lengthInLocal :: "state \<Rightarrow> js_error + int" where
  "lengthInLocal st = (if hasLocalStorage st then storage_length (localStorage st) else Inr 0)"

definition lengthInSession :: "state \<Rightarrow> js_error + int" where
  "lengthInSession st =
     (if hasSessionStorage st then storage_length (sessionStorage st) else Inr 0)"

definition lengthInMemory :: "state \<Rightarrow> js_error + int" where
  "lengthInMemory st = Inr (int (length (ram st)))"

definition removeFromLocal :: "state \<Rightarrow> string \<Rightarrow> bool \<times> state" where
  "removeFromLocal st key =
     (if hasLocalStorage st then
        (case storage_removeItem (localStorage st) (cookie st) (prefix st @ key) of
           Inl e \<Rightarrow> croak st e
         | Inr (s, jar) \<Rightarrow> (True, st\<lparr>localStorage := s, cookie := jar\<rparr>))
      else (False, st))"

definition removeFromSession :: "state \<Rightarrow> string \<Rightarrow> bool \<times> state" where
  "removeFromSession st key =
     (if hasSessionStorage st then
        (case storage_removeItem (sessionStorage st) (cookie st) (prefix st @ key) of
           Inl e \<Rightarrow> croak st e
         | Inr (s, jar) \<Rightarrow> (True, st\<lparr>sessionStorage := s, cookie := jar\<rparr>))
      else (False, st))"

definition removeFromMemory :: "state \<Rightarrow> string \<Rightarrow> bool \<times> state" where
  "removeFromMemory st key = (True, st\<lparr>ram := AList.delete key (ram st)\<rparr>)"

definition addToLocal :: "state \<Rightarrow> string \<Rightarrow> jsval \<Rightarrow> bool \<times> state" where
  "addToLocal st key val = setInLocal (console_warn st addDeprecatedWarning) key val"

definition addToSession :: "state \<Rightarrow> string \<Rightarrow> jsval \<Rightarrow> bool \<times> state" where
  "addToSession st key val = setInSession (console_warn st addDeprecatedWarning) key val"

definition addToMemory :: "state \<Rightarrow> string \<Rightarrow> jsval \<Rightarrow> bool \<times> state" where
  "addToMemory st key val = setInMemory (console_warn st addDeprecatedWarning) key val"

subsection \<open>The polyfill status\<close>

definition isLocalPolyfilled :: "state \<Rightarrow> jsval \<Rightarrow> bool \<times> state" where
  "isLocalPolyfilled st removePolyfill =
     (let oldValue = isLocalStoragePolyfilled st in
      if removePolyfill = JBool True \<and> isLocalStoragePolyfilled st then
        (oldValue, st\<lparr>localStorage := Absent, isLocalStoragePolyfilled := False\<rparr>)
      else (oldValue, st))"

definition isSessionPolyfilled :: "state \<Rightarrow> jsval \<Rightarrow> bool \<times> state" where
  "isSessionPolyfilled st removePolyfill =
     (let oldValue = isSessionStoragePolyfilled st in
      if removePolyfill = JBool True \<and> isSessionStoragePolyfilled st then
        (oldValue, st\<lparr>sessionStorage := Absent, isLocalStoragePolyfilled := False\<rparr>)
      else (oldValue, st))"

subsection \<open>The three engine objects\<close>

datatype engine = Local | Session | Memory

text \<open>\<open>webStorage[name]\<close> for a name of the order; any other name has no engine.\<close>

definition webStorage_member :: "string \<Rightarrow> engine option" where
  "webStorage_member name =
     (if name = ''local'' then Some Local
      else if name = ''session'' then Some Session
      else if name = ''memory'' then Some Memory
      else None)"

definition engine_isSupported :: "state \<Rightarrow> engine \<Rightarrow> bool" where
  "engine_isSupported st e =
     (case e of Local \<Rightarrow> hasLocalStorage st | Session \<Rightarrow> hasSessionStorage st | Memory \<Rightarrow> True)"

definition engine_set :: "engine \<Rightarrow> state \<Rightarrow> string \<Rightarrow> jsval \<Rightarrow> bool \<times> state" where
  "engine_set e = (case e of Local \<Rightarrow> setInLocal | Session \<Rightarrow> setInSession | Memory \<Rightarrow> setInMemory)"

definition engine_add :: "engine \<Rightarrow> state \<Rightarrow> string \<Rightarrow> jsval \<Rightarrow> bool \<times> state" where
  "engine_add e = (case e of Local \<Rightarrow> addToLocal | Session \<Rightarrow> addToSession | Memory \<Rightarrow> addToMemory)"

definition engine_get :: "engine \<Rightarrow> state \<Rightarrow> string \<Rightarrow> jsval \<times> state" where
  "engine_get e = (case e of Local \<Rightarrow> getFromLocal | Session \<Rightarrow> getFromSession | Memory \<Rightarrow> getFromMemory)"

definition engine_has :: "engine \<Rightarrow> state \<Rightarrow> string \<Rightarrow> bool \<times> state" where
  "engine_has e = (case e of Local \<Rightarrow> hasInLocal | Session \<Rightarrow> hasInSession | Memory \<Rightarrow> hasInMemory)"

definition engine_key :: "engine \<Rightarrow> state \<Rightarrow> int \<Rightarrow> js_error + jsval" where
  "engine_key e = (case e of Local \<Rightarrow> keyInLocal | Session \<Rightarrow> keyInSession | Memory \<Rightarrow> keyInMemory)"

definition engine_length :: "engine \<Rightarrow> state \<Rightarrow> js_error + int" where
  "engine_length e =
     (case e of Local \<Rightarrow> lengthInLocal | Session \<Rightarrow> lengthInSession | Memory \<Rightarrow> lengthInMemory)"

definition engine_remove :: "engine \<Rightarrow> state \<Rightarrow> string \<Rightarrow> bool \<times> state" where
  "engine_remove e =
     (case e of Local \<Rightarrow> removeFromLocal | Session \<Rightarrow> removeFromSession | Memory \<Rightarrow> removeFromMemory)"

text \<open>
  The \<open>isPolyfilled\<close> member of an engine object is a function on \<open>local\<close> and
  \<open>session\<close> and the boolean \<open>false\<close> on \<open>memory\<close>. Calling a member that is not a
  function throws.
\<close>

datatype 'f member = Method 'f | Property jsval

definition engine_isPolyfilled :: "engine \<Rightarrow> (state \<Rightarrow> jsval \<Rightarrow> bool \<times> state) member" where
  "engine_isPolyfilled e =
     (case e of
        Local \<Rightarrow> Method isLocalPolyfilled
      | Session \<Rightarrow> Method isSessionPolyfilled
      | Memory \<Rightarrow> Property (JBool False))"

definition call_isPolyfilled :: "engine \<Rightarrow> state \<Rightarrow> jsval \<Rightarrow> (js_error + bool) \<times> state" where
  "call_isPolyfilled e st removeFlag =
     (case engine_isPolyfilled e of
        Method f \<Rightarrow> (Inr (fst (f st removeFlag)), snd (f st removeFlag))
      | Property v \<Rightarrow> (Inl (TypeError ''isPolyfilled is not a function''), st))"

subsection \<open>The generic interface\<close>

text \<open>
  \<open>typeof allEngines !== 'undefined' ? !!allEngines : dflt\<close>.
\<close>

definition all_engines :: "jsval \<Rightarrow> bool \<Rightarrow> bool" where
  "all_engines allEngines dflt = (if allEngines = JUndefined then dflt else truthy allEngines)"

definition no_engine :: js_error where
  "no_engine = TypeError ''Cannot read property isSupported of undefined''"

text \<open>
  The loops run over the names of \<open>order\<close>; no engine operation changes \<open>order\<close>, so each
  loop is a recursion over the list read on entry.
\<close>

fun set_loop ::
  "bool \<Rightarrow> string \<Rightarrow> jsval \<Rightarrow> string list \<Rightarrow> bool \<Rightarrow> state \<Rightarrow> (js_error + bool) \<times> state" where
  "set_loop allEngines key val [] result st = (Inr result, st)"
| "set_loop allEngines key val (name # names) result st =
     (case webStorage_member name of
        None \<Rightarrow> (Inl no_engine, st)
      | Some engine \<Rightarrow>
          if engine_isSupported st engine then
            (let r = engine_set engine st key val;
                 result' = (fst r \<or> result)
             in if \<not> allEngines then (Inr result', snd r)
                else set_loop allEngines key val names result' (snd r))
          else set_loop allEngines key val names result st)"

definition webStorage_set :: "state \<Rightarrow> string \<Rightarrow> jsval \<Rightarrow> jsval \<Rightarrow> (js_error + bool) \<times> state" where
  "webStorage_set st key val allEngines =
     set_loop (all_engines allEngines False) key val (order st) False st"

definition webStorage_add :: "state \<Rightarrow> string \<Rightarrow> jsval \<Rightarrow> jsval \<Rightarrow> (js_error + bool) \<times> state" where
  "webStorage_add st key val allEngines =
     webStorage_set (console_warn st addDeprecatedWarning) key val allEngines"

fun get_loop :: "bool \<Rightarrow> string \<Rightarrow> string list \<Rightarrow> state \<Rightarrow> (js_error + jsval) \<times> state" where
  "get_loop allEngines key [] st = (Inr JNull, st)"
| "get_loop allEngines key (name # names) st =
     (case webStorage_member name of
        None \<Rightarrow> (Inl no_engine, st)
      | Some engine \<Rightarrow>
          if engine_isSupported st engine then
            (let r = engine_get engine st key
             in if \<not> allEngines \<or> fst r \<noteq> JNull then (Inr (fst r), snd r)
                else get_loop allEngines key names (snd r))
          else get_loop allEngines key names st)"

definition webStorage_get :: "state \<Rightarrow> string \<Rightarrow> jsval \<Rightarrow> (js_error + jsval) \<times> state" where
  "webStorage_get st key allEngines = get_loop (all_engines allEngines True) key (order st) st"

definition webStorage_has :: "state \<Rightarrow> string \<Rightarrow> jsval \<Rightarrow> (js_error + bool) \<times> state" where
  "webStorage_has st key allEngines =
     (case fst (webStorage_get st key allEngines) of
        Inl e \<Rightarrow> (Inl e, snd (webStorage_get st key allEngines))
      | Inr v \<Rightarrow> (Inr (JNull \<noteq> v), snd (webStorage_get st key allEngines)))"

fun key_loop :: "bool \<Rightarrow> int \<Rightarrow> string list \<Rightarrow> state \<Rightarrow> js_error + jsval" where
  "key_loop allEngines index [] st = Inr JNull"
| "key_loop allEngines index (name # names) st =
     (case webStorage_member name of
        None \<Rightarrow> Inl no_engine
      | Some engine \<Rightarrow>
          if engine_isSupported st engine then
            (case engine_key engine st index of
               Inl e \<Rightarrow> Inl e
             | Inr v \<Rightarrow>
                 if \<not> allEngines \<or> v \<noteq> JNull then Inr v
                 else key_loop allEngines index names st)
          else key_loop allEngines index names st)"

definition webStorage_key :: "state \<Rightarrow> int \<Rightarrow> jsval \<Rightarrow> js_error + jsval" where
  "webStorage_key st index allEngines = key_loop (all_engines allEngines True) index (order st) st"

fun length_loop :: "bool \<Rightarrow> string list \<Rightarrow> state \<Rightarrow> js_error + int" where
  "length_loop allEngines [] st = Inr 0"
| "length_loop allEngines (name # names) st =
     (case webStorage_member name of
        None \<Rightarrow> Inl no_engine
      | Some engine \<Rightarrow>
          if engine_isSupported st engine then
            (case engine_length engine st of
               Inl e \<Rightarrow> Inl e
             | Inr v \<Rightarrow>
                 if \<not> allEngines \<or> v \<noteq> 0 then Inr v
                 else length_loop allEngines names st)
          else length_loop allEngines names st)"

definition webStorage_length :: "state \<Rightarrow> jsval \<Rightarrow> js_error + int" where
  "webStorage_length st allEngines = length_loop (all_engines allEngines True) (order st) st"

fun remove_loop ::
  "bool \<Rightarrow> string \<Rightarrow> string list \<Rightarrow> bool \<Rightarrow> state \<Rightarrow> (js_error + bool) \<times> state" where
  "remove_loop allEngines key [] result st = (Inr result, st)"
| "remove_loop allEngines key (name # names) result st =
     (case webStorage_member name of
        None \<Rightarrow> (Inl no_engine, st)
      | Some engine \<Rightarrow>
          if engine_isSupported st engine then
            (let r = engine_remove engine st key;
                 result' = (fst r \<or> result)
             in if \<not> allEngines then (Inr result', snd r)
                else remove_loop allEngines key names result' (snd r))
          else remove_loop allEngines key names result st)"

definition webStorage_remove :: "state \<Rightarrow> string \<Rightarrow> jsval \<Rightarrow> (js_error + bool) \<times> state" where
  "webStorage_remove st key allEngines =
     remove_loop (all_engines allEngines True) key (order st) False st"

subsection \<open>The settings\<close>

text \<open>\<open>/^(local|session|memory)$/.test(name)\<close>.\<close>

definition engine_name_test :: "string \<Rightarrow> bool" where
  "engine_name_test name = (name = ''local'' \<or> name = ''session'' \<or> name = ''memory'')"

fun order_loop :: "string list \<Rightarrow> string list \<Rightarrow> string list" where
  "order_loop [] acc = acc"
| "order_loop (name # names) acc =
     order_loop names (if engine_name_test name then acc @ [name] else acc)"

text \<open>The argument is \<open>None\<close> when \<open>order\<close> is called without one.\<close>

definition webStorage_order :: "state \<Rightarrow> string list option \<Rightarrow> string list \<times> state" where
  "webStorage_order st newOrder =
     (let result = order st in
      case newOrder of
        None \<Rightarrow> (result, st)
      | Some names \<Rightarrow> (result, st\<lparr>order := order_loop names []\<rparr>))"

definition webStorage_prefix :: "state \<Rightarrow> jsval \<Rightarrow> jsval \<times> state" where
  "webStorage_prefix st newPrefix =
     (let result = JStr (prefix st) in
      case newPrefix of
        JUndefined \<Rightarrow> (result, st)
      | JStr p \<Rightarrow> (result, st\<lparr>prefix := p\<rparr>)
      | _ \<Rightarrow> (JBool False, st))"

definition webStorage_errorName :: "state \<Rightarrow> jsval \<Rightarrow> jsval \<times> state" where
  "webStorage_errorName st newErrorName =
     (let result = JStr (errorName st) in
      case newErrorName of
        JUndefined \<Rightarrow> (result, st)
      | JStr n \<Rightarrow> (result, st\<lparr>errorName := n\<rparr>)
      | _ \<Rightarrow> (JBool False, st))"

subsection \<open>The factory\<close>

text \<open>
  \<open>polyfillLocalStorage\<close> installs the cookie-backed object when the global is missing;
  when reading the global throws, its \<open>catch\<close> swallows the exception.
\<close>

definition polyfillLocalStorage :: "state \<Rightarrow> state" where
  "polyfillLocalStorage st =
     (case localStorage st of
        Absent \<Rightarrow>
          st\<lparr>localStorage := Polyfill (case match_equals (cookie st) of None \<Rightarrow> 0 | Some n \<Rightarrow> int n),
             isLocalStoragePolyfilled := True\<rparr>
      | _ \<Rightarrow> st)"

definition polyfillSessionStorage :: "state \<Rightarrow> state" where
  "polyfillSessionStorage st =
     (case sessionStorage st of
        Absent \<Rightarrow>
          st\<lparr>sessionStorage := Polyfill (case match_equals (cookie st) of None \<Rightarrow> 0 | Some n \<Rightarrow> int n),
             isSessionStoragePolyfilled := True\<rparr>
      | _ \<Rightarrow> st)"

definition testLocalStorage :: "state \<Rightarrow> bool \<times> state" where
  "testLocalStorage st =
     (let st1 = polyfillLocalStorage st in
      case storage_setItem (localStorage st1) (cookie st1) (prefix st1 @ testKey) (Inr testKey) of
        Inl e \<Rightarrow> (False, st1)
      | Inr (s2, jar2) \<Rightarrow>
          (case storage_removeItem s2 jar2 (prefix st1 @ testKey) of
             Inl e \<Rightarrow> (False, st1\<lparr>localStorage := s2, cookie := jar2\<rparr>)
           | Inr (s3, jar3) \<Rightarrow> (True, st1\<lparr>localStorage := s3, cookie := jar3\<rparr>)))"

definition testSessionStorage :: "state \<Rightarrow> bool \<times> state" where
  "testSessionStorage st =
     (let st1 = polyfillSessionStorage st in
      case storage_setItem (sessionStorage st1) (cookie st1) (prefix st1 @ testKey) (Inr testKey) of
        Inl e \<Rightarrow> (False, st1)
      | Inr (s2, jar2) \<Rightarrow>
          (case storage_removeItem s2 jar2 (prefix st1 @ testKey) of
             Inl e \<Rightarrow> (False, st1\<lparr>sessionStorage := s2, cookie := jar2\<rparr>)
           | Inr (s3, jar3) \<Rightarrow> (True, st1\<lparr>sessionStorage := s3, cookie := jar3\<rparr>)))"

text \<open>
  The factory runs its \<open>var\<close> initialisers top to bottom: \<open>errorName\<close>, then
  \<open>hasLocalStorage = testLocalStorage()\<close> and \<open>hasSessionStorage = testSessionStorage()\<close>,
  and only then \<open>isLocalStoragePolyfilled = false\<close>, \<open>isSessionStoragePolyfilled = false\<close>,
  \<open>order\<close>, \<open>prefix\<close> and \<open>ram\<close>. While the two probes run, \<open>prefix\<close> is still
  \<open>undefined\<close>, which \<open>prefix + testKey\<close> prints as the text \<open>undefined\<close>. The arguments are
  the browser's \<open>window.localStorage\<close>, \<open>window.sessionStorage\<close> and \<open>document.cookie\<close>.
\<close>

definition webStorage_factory :: "storage \<Rightarrow> storage \<Rightarrow> entries \<Rightarrow> state" where
  "webStorage_factory window_localStorage window_sessionStorage document_cookie =
     (let st0 = \<lparr>errorName = default_errorName,
                 hasLocalStorage = False, hasSessionStorage = False,
                 isLocalStoragePolyfilled = False, isSessionStoragePolyfilled = False,
                 order = [], prefix = ''undefined'', ram = [], ram_prototype = ObjectPrototype,
                 localStorage = window_localStorage, sessionStorage = window_sessionStorage,
                 cookie = document_cookie, broadcasts = [], warnings = []\<rparr>;
          l = testLocalStorage st0;
          s = testSessionStorage (snd l)
      in (snd s)\<lparr>hasLocalStorage := fst l, hasSessionStorage := fst s,
                 isLocalStoragePolyfilled := False, isSessionStoragePolyfilled := False,
                 order := default_order, prefix := default_prefix, ram := [],
                 ram_prototype := ObjectPrototype\<rparr>)"

section \<open>Notions used in the statements\<close>

text \<open>
  The text \<open>setItem\<close> receives for a value: its serialisation, or \<open>undefined\<close> printed
  as a string when there is none.
\<close>

definition json_text :: "jsval \<Rightarrow> string" where
  "json_text v = element_text (serialize v)"

definition member_text :: "string \<times> jsval \<Rightarrow> string" where
  "member_text kv = quote (fst kv) @ CHR '':'' # json_text (snd kv)"

text \<open>What may follow a value inside a text, and how the text of a value starts.\<close>

definition delim :: "string \<Rightarrow> bool" where
  "delim r = (r = [] \<or> hd r = CHR '','' \<or> hd r = CHR '']'' \<or> hd r = CHR ''}'')"

definition starts_value :: "string \<Rightarrow> bool" where
  "starts_value t = (t \<noteq> [] \<and> \<not> is_ws (hd t) \<and> hd t \<noteq> CHR '']'' \<and> hd t \<noteq> CHR ''}'')"

text \<open>
  The order holds engine names only: so the factory leaves it, and so the setter keeps it.
\<close>

definition order_valid :: "state \<Rightarrow> bool" where
  "order_valid st = list_all engine_name_test (order st)"

definition order_engines :: "state \<Rightarrow> engine list" where
  "order_engines st = List.map_filter webStorage_member (order st)"

definition supported_engines :: "state \<Rightarrow> engine list" where
  "supported_engines st = filter (engine_isSupported st) (order_engines st)"

definition first_supported :: "state \<Rightarrow> engine option" where
  "first_supported st = (case supported_engines st of [] \<Rightarrow> None | e # es \<Rightarrow> Some e)"

definition first_non_null :: "jsval list \<Rightarrow> jsval" where
  "first_non_null vs = (case filter (\<lambda>v. v \<noteq> JNull) vs of [] \<Rightarrow> JNull | v # ws \<Rightarrow> v)"

text \<open>
  What an engine holds: the items of its storage object (the document's cookies for a
  polyfill), or the properties of \<open>ram\<close>.
\<close>

datatype contents = Items entries | Values "(string \<times> jsval) list"

definition engine_contents :: "engine \<Rightarrow> state \<Rightarrow> contents" where
  "engine_contents e st =
     (case e of
        Local \<Rightarrow> Items (storage_entries (localStorage st) (cookie st))
      | Session \<Rightarrow> Items (storage_entries (sessionStorage st) (cookie st))
      | Memory \<Rightarrow> Values (ram st))"

definition is_polyfill :: "storage \<Rightarrow> bool" where
  "is_polyfill s = (case s of Polyfill len \<Rightarrow> True | _ \<Rightarrow> False)"

definition cookie_backed :: "state \<Rightarrow> engine \<Rightarrow> bool" where
  "cookie_backed st e =
     (case e of
        Local \<Rightarrow> is_polyfill (localStorage st)
      | Session \<Rightarrow> is_polyfill (sessionStorage st)
      | Memory \<Rightarrow> False)"

text \<open>A storage object whose members can be reached.\<close>

definition usable :: "storage \<Rightarrow> bool" where
  "usable s = (case s of Native items quota \<Rightarrow> True | Polyfill len \<Rightarrow> True | _ \<Rightarrow> False)"

text \<open>
  A value is JSON-representable when \<open>JSON.parse\<close> reads it back from the text
  \<open>JSON.stringify\<close> gives for it.
\<close>

definition json_round_trips :: "jsval \<Rightarrow> bool" where
  "json_round_trips v =
     (case serialize v of Text t \<Rightarrow> JSON_parse t = Inr v | NoText \<Rightarrow> False | Circular \<Rightarrow> False)"

text \<open>
  A storage object takes the item \<open>k\<close>, \<open>t\<close>: a native store with room for it, or the
  polyfill when the key is not empty and the document keeps the cookie. The in-memory
  object takes the name \<open>k\<close> when it holds it already or when the name does not resolve
  to the accessor \<open>__proto__\<close>; a function or a circular structure as prototype, whose
  members are not listed, is left out. An engine is ready for \<open>set(k, v)\<close> when it is
  supported and its backend takes the item.
\<close>

definition accepts_write :: "storage \<Rightarrow> string \<Rightarrow> string \<Rightarrow> bool" where
  "accepts_write s k t =
     (case s of
        Native items quota \<Rightarrow> storage_size (AList.update k t items) \<le> quota
      | Polyfill len \<Rightarrow> k \<noteq> [] \<and> document_keeps (escape k) (escape t)
      | _ \<Rightarrow> False)"




text \<open>
  Two browsers: one with native local and session storage (of 100 code units each), one
  with neither, where the factory installs both polyfills.
\<close>

definition native_browser :: state where
  "native_browser = webStorage_factory (Native [] 100) (Native [] 100) []"

definition cookie_browser :: state where
  "cookie_browser = webStorage_factory Absent Absent []"

section \<open>\<open>JSON.parse\<close> inverts \<open>JSON.stringify\<close>\<close>

lemma of_char_digit_char: "d < 10 \<Longrightarrow> (of_char (digit_char d) :: nat) = 48 + d"
  by (simp add: digit_char_def)

lemma of_char_digit_char_int: "d < 10 \<Longrightarrow> (of_char (digit_char d) :: int) = 48 + int d"
proof -
  assume "d < 10"
  then have "int (of_char (digit_char d)) = int (48 + d)"
    by (simp only: of_char_digit_char)
  then show ?thesis by (simp add: of_nat_of_char)
qed

lemma is_digit_digit_char: "d < 10 \<Longrightarrow> is_digit (digit_char d)"
  by (simp add: is_digit_def of_char_digit_char)

lemma show_nat_digits: "c \<in> set (show_nat n) \<Longrightarrow> is_digit c"
proof (induction n rule: show_nat.induct)
  case (1 n)
  show ?case
  proof (cases "n < 10")
    case True
    with "1.prems" show ?thesis
      by (simp add: show_nat.simps[of n] is_digit_digit_char)
  next
    case False
    with "1.prems" "1.IH" show ?thesis
      by (auto simp: show_nat.simps[of n] is_digit_digit_char)
  qed
qed

lemma show_nat_nonempty: "show_nat n \<noteq> []"
  by (subst show_nat.simps) simp

lemma read_digits_snoc: "read_digits (ds @ [c]) = 10 * read_digits ds + (of_char c - 48)"
  by (simp add: read_digits_def)

lemma read_show_nat: "read_digits (show_nat n) = int n"
proof (induction n rule: show_nat.induct)
  case (1 n)
  show ?case
  proof (cases "n < 10")
    case True
    then show ?thesis
      by (simp add: show_nat.simps[of n] read_digits_def of_char_digit_char_int)
  next
    case False
    have "int n = 10 * int (n div 10) + int (n mod 10)"
      by (metis mult_div_mod_eq of_nat_add of_nat_mult of_nat_numeral)
    with False "1.IH" show ?thesis
      by (simp add: show_nat.simps[of n] read_digits_snoc of_char_digit_char_int)
  qed
qed

lemma show_nat_hd: "0 < n \<Longrightarrow> hd (show_nat n) \<noteq> CHR ''0''"
proof (induction n rule: show_nat.induct)
  case (1 n)
  show ?case
  proof (cases "n < 10")
    case True
    have "(of_char (digit_char n) :: nat) \<noteq> of_char (CHR ''0'')"
      using True "1.prems" by (simp add: of_char_digit_char)
    then have "digit_char n \<noteq> CHR ''0''" by auto
    then show ?thesis using True by (simp add: show_nat.simps[of n])
  next
    case False
    then have "0 < n div 10" by simp
    with "1.IH" False have "hd (show_nat (n div 10)) \<noteq> CHR ''0''" by simp
    then show ?thesis using False by (simp add: show_nat.simps[of n] show_nat_nonempty)
  qed
qed

lemma show_nat_no_leading_zero: "\<not> (1 < length (show_nat n) \<and> hd (show_nat n) = CHR ''0'')"
proof (cases "n < 10")
  case True
  then show ?thesis by (simp add: show_nat.simps[of n])
next
  case False
  then show ?thesis using show_nat_hd[of n] by simp
qed

lemma delim_not_digit: "delim r \<Longrightarrow> r \<noteq> [] \<Longrightarrow> \<not> is_digit (hd r)"
  by (auto simp: delim_def is_digit_def)

lemma takeWhile_digits: "delim r \<Longrightarrow> takeWhile is_digit (show_nat n @ r) = show_nat n"
  by (cases r) (auto simp: takeWhile_append2 show_nat_digits dest: delim_not_digit)

lemma dropWhile_digits: "delim r \<Longrightarrow> dropWhile is_digit (show_nat n @ r) = r"
  by (cases r) (auto simp: dropWhile_append2 show_nat_digits dest: delim_not_digit)

lemma show_nat_hd_digit: "is_digit (hd (show_nat n))"
  using show_nat_digits[of "hd (show_nat n)" n] show_nat_nonempty[of n] by simp

lemma show_nat_hd_not_minus: "hd (show_nat n) \<noteq> CHR ''-''"
  using show_nat_hd_digit[of n] by (auto simp: is_digit_def)

lemma delim_number_end:
  "delim r \<Longrightarrow> \<not> (r \<noteq> [] \<and> (hd r = CHR ''.'' \<or> hd r = CHR ''e'' \<or> hd r = CHR ''E''))"
  by (auto simp: delim_def)

lemma number_value_integer:
  "int n \<le> max_safe_integer \<Longrightarrow>
   number_value neg (show_nat n) [] 0 lit = JNum (if neg then - int n else int n)"
  by (simp add: number_value_def safe_number_def read_show_nat)

lemma parse_number_digits:
  assumes "delim r" and "neg \<longrightarrow> s = CHR ''-'' # ip @ r" and "\<not> neg \<longrightarrow> s = ip @ r"
    and "ip \<noteq> []" and "\<And>c. c \<in> set ip \<Longrightarrow> is_digit c"
    and "\<not> (1 < length ip \<and> hd ip = CHR ''0'')"
  shows "parse_number s = Some (number_value neg ip [] 0 (take (length s - length r) s), r)"
proof -
  have z: "read_digits [] = 0" by (simp add: read_digits_def)
  have nd: "r \<noteq> [] \<Longrightarrow> \<not> is_digit (hd r)"
    using assms(1) by (rule delim_not_digit)
  have tw: "takeWhile is_digit (ip @ r) = ip"
    using assms(5) nd by (cases r) (auto simp: takeWhile_append2)
  have dw: "dropWhile is_digit (ip @ r) = r"
    using assms(5) nd by (cases r) (auto simp: dropWhile_append2)
  have "\<not> is_digit (CHR ''-'')" by (simp add: is_digit_def)
  then have hm: "hd ip \<noteq> CHR ''-''"
    using assms(4) assms(5)[of "hd ip"] by auto
  have n: "(s \<noteq> [] \<and> hd s = CHR ''-'') = neg"
    using assms(2,3,4) hm by (cases neg) auto
  have s1: "(if neg then tl s else s) = ip @ r"
    using assms(2,3) by (cases neg) auto
  have l: "(1 < length ip \<and> hd ip = CHR ''0'') = False" using assms(6) by simp
  consider "r = []" | r' where "r = CHR '','' # r'" | r' where "r = CHR '']'' # r'"
    | r' where "r = CHR ''}'' # r'"
    using assms(1) by (cases r) (auto simp: delim_def)
  then show ?thesis
  proof cases
    case 1
    show ?thesis
      unfolding parse_number_def Let_def n s1 tw dw
      using assms(4) by (simp add: 1 z l del: One_nat_def)
  next
    case 2
    show ?thesis
      unfolding parse_number_def Let_def n s1 tw dw
      using assms(4) by (simp add: 2 z l del: One_nat_def)
  next
    case 3
    show ?thesis
      unfolding parse_number_def Let_def n s1 tw dw
      using assms(4) by (simp add: 3 z l del: One_nat_def)
  next
    case 4
    show ?thesis
      unfolding parse_number_def Let_def n s1 tw dw
      using assms(4) by (simp add: 4 z l del: One_nat_def)
  qed
qed

lemma parse_number_show_int:
  assumes "delim r" and "\<bar>i\<bar> \<le> max_safe_integer"
  shows "parse_number (show_int i @ r) = Some (JNum i, r)"
proof (cases "i < 0")
  case True
  have n: "int (nat (- i)) \<le> max_safe_integer" using assms(2) True by simp
  have "parse_number (show_int i @ r) =
          Some (number_value True (show_nat (nat (- i))) [] 0
                  (take (length (show_int i @ r) - length r) (show_int i @ r)), r)"
    using True show_nat_no_leading_zero[of "nat (- i)"]
    by (intro parse_number_digits[OF assms(1)])
       (simp_all add: show_int_def show_nat_nonempty show_nat_digits)
  then show ?thesis
    using True by (simp add: number_value_integer[OF n])
next
  case False
  have n: "int (nat i) \<le> max_safe_integer" using assms(2) False by simp
  have "parse_number (show_int i @ r) =
          Some (number_value False (show_nat (nat i)) [] 0
                  (take (length (show_int i @ r) - length r) (show_int i @ r)), r)"
    using False show_nat_no_leading_zero[of "nat i"]
    by (intro parse_number_digits[OF assms(1)])
       (simp_all add: show_int_def show_nat_nonempty show_nat_digits)
  then show ?thesis
    using False by (simp add: number_value_integer[OF n])
qed

lemma char_eq_of_char: "(c = d) = ((of_char c :: nat) = of_char d)"
  by auto

lemma hex_val_hex_char: "d < 16 \<Longrightarrow> hex_val (hex_char d) = Some d"
  by (auto simp: hex_val_def hex_char_def Let_def)

lemma hex4_low: "n < 32 \<Longrightarrow> hex4 (CHR ''0'') (CHR ''0'') (hex_char (n div 16)) (hex_char (n mod 16)) = Some n"
proof -
  assume n: "n < 32"
  have z: "hex_val (CHR ''0'') = Some 0" by (simp add: hex_val_def)
  have a: "hex_val (hex_char (n div 16)) = Some (n div 16)"
    using n by (intro hex_val_hex_char) simp
  have b: "hex_val (hex_char (n mod 16)) = Some (n mod 16)"
    by (intro hex_val_hex_char) simp
  show ?thesis by (simp add: hex4_def z a b)
qed

lemma parse_escape_char:
  "parse_string_body (escape_char c @ r) = map_option (apfst ((#) c)) (parse_string_body r)"
proof -
  let ?n = "of_char c :: nat"
  consider "?n = 34" | "?n = 92" | "?n = 8" | "?n = 9" | "?n = 10" | "?n = 12" | "?n = 13"
    | "?n < 32" "?n \<notin> {8, 9, 10, 12, 13}" | "32 \<le> ?n" "?n \<noteq> 34" "?n \<noteq> 92"
    by fastforce
  then show ?thesis
  proof cases
    case 1
    then have "c = CHR 0x22" by (simp add: char_eq_of_char)
    then show ?thesis by (simp add: escape_char_def unescape_char_def)
  next
    case 2
    then have "c = CHR 0x5C" by (simp add: char_eq_of_char)
    then show ?thesis by (simp add: escape_char_def unescape_char_def)
  next
    case 3
    then have "c = CHR 0x08" by (simp add: char_eq_of_char)
    then show ?thesis by (simp add: escape_char_def unescape_char_def)
  next
    case 4
    then have "c = CHR 0x09" by (simp add: char_eq_of_char)
    then show ?thesis by (simp add: escape_char_def unescape_char_def)
  next
    case 5
    then have "c = CHR 0x0A" by (simp add: char_eq_of_char)
    then show ?thesis by (simp add: escape_char_def unescape_char_def)
  next
    case 6
    then have "c = CHR 0x0C" by (simp add: char_eq_of_char)
    then show ?thesis by (simp add: escape_char_def unescape_char_def)
  next
    case 7
    then have "c = CHR 0x0D" by (simp add: char_eq_of_char)
    then show ?thesis by (simp add: escape_char_def unescape_char_def)
  next
    case 8
    then have e: "escape_char c = [CHR 0x5C, CHR ''u'', CHR ''0'', CHR ''0'', hex_char (?n div 16), hex_char (?n mod 16)]"
      by (simp add: escape_char_def Let_def)
    have "char_of ?n = c" by simp
    then show ?thesis
      using 8(1) by (simp add: e hex4_low)
  next
    case 9
    then have e: "escape_char c = [c]"
      by (simp add: escape_char_def Let_def)
    have "c \<noteq> CHR 0x22" "c \<noteq> CHR 0x5C"
      using 9 by (auto simp: char_eq_of_char)
    then show ?thesis
      using 9(1) by (simp add: e)
  qed
qed

lemma parse_string_body_escaped:
  "parse_string_body (concat (map escape_char s) @ CHR 0x22 # r) = Some (s, r)"
  by (induction s) (simp_all add: parse_escape_char)

lemma member_texts_all:
  "\<forall>kv \<in> set kvs. serialize (snd kv) = Text (json_text (snd kv)) \<Longrightarrow>
   member_texts (map (\<lambda>kv. (fst kv, serialize (snd kv))) kvs) = map member_text kvs"
  by (induction kvs) (auto simp: member_text_def)

lemma serialize_representable:
  "json_representable v \<Longrightarrow> serialize v = Text (json_text v)"
proof (induction v)
  case (JArr xs)
  then have all: "\<forall>x \<in> set xs. serialize x = Text (json_text x)"
    by (auto simp: list_all_iff)
  then have "Circular \<notin> set (map serialize xs)" by auto
  then show ?case by (simp add: json_text_def)
next
  case (JObj kvs)
  have all: "\<forall>kv \<in> set kvs. serialize (snd kv) = Text (json_text (snd kv))"
  proof
    fix kv assume kv: "kv \<in> set kvs"
    then have "json_representable (snd kv)" using JObj.prems by (auto simp: list_all_iff)
    moreover have "snd kv \<in> Basic_BNFs.snds kv" by (cases kv) simp
    ultimately show "serialize (snd kv) = Text (json_text (snd kv))"
      using JObj.IH kv by blast
  qed
  then have "Circular \<notin> snd ` set (map (\<lambda>kv. (fst kv, serialize (snd kv))) kvs)" by force
  then show ?case by (simp add: json_text_def)
qed (simp_all add: json_text_def)

lemma json_text_array:
  "list_all json_representable xs \<Longrightarrow>
   json_text (JArr xs) = CHR ''['' # join (map json_text xs) @ '']''"
proof -
  assume a: "list_all json_representable xs"
  then have all: "\<forall>x \<in> set xs. serialize x = Text (json_text x)"
    by (auto simp: list_all_iff serialize_representable)
  then have c: "Circular \<notin> set (map serialize xs)" by auto
  have "element_text \<circ> serialize = json_text"
    by (rule ext) (simp add: json_text_def)
  then show ?thesis using c by (simp add: json_text_def)
qed

lemma json_text_object:
  "list_all (\<lambda>kv. json_representable (snd kv)) kvs \<Longrightarrow>
   json_text (JObj kvs) = CHR ''{'' # join (map member_text kvs) @ ''}''"
proof -
  assume a: "list_all (\<lambda>kv. json_representable (snd kv)) kvs"
  then have all: "\<forall>kv \<in> set kvs. serialize (snd kv) = Text (json_text (snd kv))"
    by (auto simp: list_all_iff serialize_representable)
  then have c: "Circular \<notin> snd ` set (map (\<lambda>kv. (fst kv, serialize (snd kv))) kvs)" by force
  show ?thesis using c member_texts_all[OF all] by (simp add: json_text_def)
qed

lemma show_int_starts: "starts_value (show_int i)"
proof -
  have d: "\<not> is_ws (hd (show_nat n)) \<and> hd (show_nat n) \<noteq> CHR '']'' \<and> hd (show_nat n) \<noteq> CHR ''}''" for n
    using show_nat_hd_digit[of n] by (auto simp: is_digit_def is_ws_def Let_def)
  show ?thesis
    using d by (simp add: starts_value_def show_int_def show_nat_nonempty is_ws_def)
qed

lemma json_text_starts: "json_representable v \<Longrightarrow> starts_value (json_text v)"
proof (cases v)
  case (JNum n)
  then show ?thesis using show_int_starts by (simp add: json_text_def)
next
  case (JArr xs)
  assume "json_representable v"
  then show ?thesis using JArr by (simp add: json_text_array starts_value_def is_ws_def)
next
  case (JObj kvs)
  assume "json_representable v"
  then show ?thesis using JObj by (simp add: json_text_object starts_value_def is_ws_def)
qed (simp_all add: json_text_def starts_value_def is_ws_def quote_def)

lemma skip_ws_char: "\<not> is_ws c \<Longrightarrow> skip_ws (c # r) = c # r"
  by (simp add: skip_ws_def)

lemma delim_simps [simp]:
  "delim []" "delim (CHR '','' # r)" "delim (CHR '']'' # r)" "delim (CHR ''}'' # r)"
  by (simp_all add: delim_def)

lemma not_ws_simps [simp]:
  "\<not> is_ws (CHR '','')" "\<not> is_ws (CHR '']'')" "\<not> is_ws (CHR ''}'')" "\<not> is_ws (CHR '':'')"
  "\<not> is_ws (CHR 0x22)"
  by (simp_all add: is_ws_def)

lemma join_Cons: "ts \<noteq> [] \<Longrightarrow> join (t # ts) = t @ CHR '','' # join ts"
  by (cases ts) simp_all

lemma parse_elements_join:
  assumes "\<And>x n r. x \<in> set xs \<Longrightarrow> length (json_text x) < n \<Longrightarrow> delim r \<Longrightarrow>
             parse_value n (json_text x @ r) = Some (x, r)"
    and "xs \<noteq> []" and "length (join (map json_text xs)) + 1 < n"
  shows "parse_elements n (join (map json_text xs) @ CHR '']'' # r) = Some (xs, r)"
  using assms
proof (induction xs arbitrary: n)
  case Nil
  then show ?case by simp
next
  case (Cons x xs)
  obtain m where n: "n = Suc m" using Cons.prems(3) by (cases n) auto
  show ?case
  proof (cases "xs = []")
    case True
    have "length (json_text x) < m" using Cons.prems(3) True n by simp
    then have "parse_value m (json_text x @ CHR '']'' # r) = Some (x, CHR '']'' # r)"
      using Cons.prems(1)[of x m "CHR '']'' # r"] by simp
    then show ?thesis by (simp add: n True skip_ws_char)
  next
    case False
    have len: "length (join (map json_text (x # xs))) =
                 length (json_text x) + 1 + length (join (map json_text xs))"
      using False by (simp add: join_Cons)
    have "length (json_text x) < m" using Cons.prems(3) n len by simp
    then have v: "parse_value m (json_text x @ CHR '','' # join (map json_text xs) @ CHR '']'' # r) =
                    Some (x, CHR '','' # join (map json_text xs) @ CHR '']'' # r)"
      using Cons.prems(1)[of x m] by simp
    have "length (join (map json_text xs)) + 1 < m" using Cons.prems(3) n len by simp
    then have rest: "parse_elements m (join (map json_text xs) @ CHR '']'' # r) = Some (xs, r)"
      using Cons.IH[of m] Cons.prems(1) False by simp
    show ?thesis
      using False v rest by (simp add: n join_Cons skip_ws_char)
  qed
qed

lemma parse_member_key:
  "parse_string_body (tl (member_text kv) @ r) = Some (fst kv, CHR '':'' # json_text (snd kv) @ r)"
  by (simp add: member_text_def quote_def parse_string_body_escaped)

lemma member_text_Cons: "member_text kv @ s = CHR 0x22 # tl (member_text kv) @ s"
  by (simp add: member_text_def quote_def)

lemma length_member_text: "length (json_text (snd kv)) < length (member_text kv)"
  by (simp add: member_text_def)

lemma parse_members_join:
  assumes "\<And>kv n r. kv \<in> set kvs \<Longrightarrow> length (json_text (snd kv)) < n \<Longrightarrow> delim r \<Longrightarrow>
             parse_value n (json_text (snd kv) @ r) = Some (snd kv, r)"
    and "kvs \<noteq> []" and "length (join (map member_text kvs)) + 1 < n"
  shows "parse_members n (join (map member_text kvs) @ CHR ''}'' # r) = Some (kvs, r)"
  using assms
proof (induction kvs arbitrary: n)
  case Nil
  then show ?case by simp
next
  case (Cons kv kvs)
  obtain m where n: "n = Suc m" using Cons.prems(3) by (cases n) auto
  show ?case
  proof (cases "kvs = []")
    case True
    have "length (json_text (snd kv)) < m"
      using Cons.prems(3) True n length_member_text[of kv] by simp
    then have v: "parse_value m (json_text (snd kv) @ CHR ''}'' # r) = Some (snd kv, CHR ''}'' # r)"
      using Cons.prems(1)[of kv m "CHR ''}'' # r"] by simp
    show ?thesis
      using v by (simp add: n True member_text_Cons skip_ws_char parse_member_key)
  next
    case False
    have len: "length (join (map member_text (kv # kvs))) =
                 length (member_text kv) + 1 + length (join (map member_text kvs))"
      using False by (simp add: join_Cons)
    have "length (json_text (snd kv)) < m"
      using Cons.prems(3) n len length_member_text[of kv] by simp
    then have v: "parse_value m (json_text (snd kv) @ CHR '','' # join (map member_text kvs) @ CHR ''}'' # r) =
                    Some (snd kv, CHR '','' # join (map member_text kvs) @ CHR ''}'' # r)"
      using Cons.prems(1)[of kv m] by simp
    have "length (join (map member_text kvs)) + 1 < m" using Cons.prems(3) n len by simp
    then have rest: "parse_members m (join (map member_text kvs) @ CHR ''}'' # r) = Some (kvs, r)"
      using Cons.IH[of m] Cons.prems(1) False by simp
    show ?thesis
      using v rest False
      by (simp add: n join_Cons member_text_Cons skip_ws_char parse_member_key)
  qed
qed

lemma update_fresh: "k \<notin> fst ` set al \<Longrightarrow> AList.update k v al = al @ [(k, v)]"
  by (induction al) auto

lemma foldl_define_property:
  "distinct (map fst (obj @ ms)) \<Longrightarrow>
   foldl (\<lambda>obj kv. define_property (fst kv) (snd kv) obj) obj ms = obj @ ms"
proof (induction ms arbitrary: obj)
  case Nil
  show ?case by simp
next
  case (Cons kv ms)
  have "fst kv \<notin> fst ` set obj" using Cons.prems by auto
  then have "define_property (fst kv) (snd kv) obj = obj @ [kv]"
    by (simp add: define_property_def update_fresh)
  then show ?case using Cons.IH[of "obj @ [kv]"] Cons.prems by simp
qed

lemma object_of_members_distinct: "distinct (map fst ms) \<Longrightarrow> object_of_members ms = ms"
  using foldl_define_property[of "[]" ms] by (simp add: object_of_members_def)

lemma join_starts:
  "ts \<noteq> [] \<Longrightarrow> starts_value (hd ts) \<Longrightarrow> starts_value (join ts @ r)"
  by (cases ts rule: join.cases) (auto simp: starts_value_def)

lemma starts_valueD:
  "starts_value t \<Longrightarrow> \<exists>c cs. t = c # cs \<and> \<not> is_ws c \<and> c \<noteq> CHR '']'' \<and> c \<noteq> CHR ''}''"
  by (cases t) (auto simp: starts_value_def)

lemma show_int_first:
  "\<exists>c cs. show_int i = c # cs \<and> (c = CHR ''-'' \<or> is_digit c)"
proof (cases "i < 0")
  case True
  then show ?thesis by (simp add: show_int_def)
next
  case False
  obtain c cs where "show_nat (nat i) = c # cs"
    using show_nat_nonempty[of "nat i"] by (cases "show_nat (nat i)") auto
  moreover from this have "is_digit c" using show_nat_hd_digit[of "nat i"] by simp
  ultimately show ?thesis using False by (simp add: show_int_def)
qed

lemma parse_value_number:
  assumes "delim r" and "\<bar>i\<bar> \<le> max_safe_integer"
  shows "parse_value (Suc m) (show_int i @ r) = Some (JNum i, r)"
proof -
  obtain c cs where t: "show_int i = c # cs" and c: "c = CHR ''-'' \<or> is_digit c"
    using show_int_first by blast
  have nws: "\<not> is_ws c" using c by (auto simp: is_ws_def is_digit_def Let_def)
  have ne: "c \<noteq> CHR 0x22" "c \<noteq> CHR ''[''" "c \<noteq> CHR ''{''" "c \<noteq> CHR ''n''" "c \<noteq> CHR ''t''"
    "c \<noteq> CHR ''f''"
    using c by (auto simp: is_digit_def Let_def)
  have "parse_value (Suc m) (c # cs @ r) = parse_number (c # cs @ r)"
    using nws ne by (simp add: skip_ws_char)
  then show ?thesis
    using parse_number_show_int[OF assms] by (simp add: t)
qed

lemma parse_json_text:
  "json_representable v \<Longrightarrow> length (json_text v) < n \<Longrightarrow> delim r \<Longrightarrow>
   parse_value n (json_text v @ r) = Some (v, r)"
proof (induction v arbitrary: n r)
  case JUndefined
  then show ?case by simp
next
  case JNull
  then obtain m where "n = Suc m" by (cases n) auto
  then show ?case by (simp add: json_text_def skip_ws_char is_ws_def)
next
  case (JBool b)
  then obtain m where "n = Suc m" by (cases n) auto
  then show ?case by (cases b) (simp_all add: json_text_def skip_ws_char is_ws_def)
next
  case (JNum i)
  then obtain m where "n = Suc m" by (cases n) auto
  then show ?case using parse_value_number[OF JNum.prems(3), of i] JNum.prems(1)
    by (simp add: json_text_def)
next
  case (JStr s)
  then obtain m where "n = Suc m" by (cases n) auto
  then show ?case
    by (simp add: json_text_def quote_def skip_ws_char parse_string_body_escaped)
next
  case (JArr xs)
  then obtain m where n: "n = Suc m" by (cases n) auto
  from JArr.prems(1) have all: "list_all json_representable xs" by simp
  have t: "json_text (JArr xs) = CHR ''['' # join (map json_text xs) @ '']''"
    using all by (rule json_text_array)
  show ?case
  proof (cases "xs = []")
    case True
    have "json_text (JArr []) = ''[]''" using t True by simp
    then show ?thesis using True by (simp add: n skip_ws_char is_ws_def)
  next
    case False
    have elems: "parse_value n' (json_text x @ r') = Some (x, r')"
      if "x \<in> set xs" "length (json_text x) < n'" "delim r'" for x n' r'
      using JArr.IH[OF that(1)] that all by (simp add: list_all_iff)
    have "length (join (map json_text xs)) + 1 < m"
      using JArr.prems(2) by (simp add: t n)
    then have p: "parse_elements m (join (map json_text xs) @ CHR '']'' # r) = Some (xs, r)"
      using parse_elements_join[of xs m r] elems False by blast
    have "starts_value (json_text (hd xs))"
      using all False by (intro json_text_starts) (simp add: list_all_iff)
    then have "starts_value (join (map json_text xs) @ CHR '']'' # r)"
      using False by (intro join_starts) (simp_all add: hd_map)
    then obtain c cs where s: "join (map json_text xs) @ CHR '']'' # r = c # cs"
      and c: "\<not> is_ws c" "c \<noteq> CHR '']''"
      using starts_valueD by blast
    have "parse_value (Suc m) (CHR ''['' # c # cs) = map_option (apfst JArr) (parse_elements m (c # cs))"
      using c by (simp add: skip_ws_char is_ws_def)
    then show ?thesis using p by (simp add: t n s)
  qed
next
  case (JObj kvs)
  then obtain m where n: "n = Suc m" by (cases n) auto
  from JObj.prems(1) have all: "list_all (\<lambda>kv. json_representable (snd kv)) kvs"
    and d: "distinct (map fst kvs)" by simp_all
  have t: "json_text (JObj kvs) = CHR ''{'' # join (map member_text kvs) @ ''}''"
    using all by (rule json_text_object)
  show ?case
  proof (cases "kvs = []")
    case True
    have "json_text (JObj []) = ''{}''" using t True by simp
    then show ?thesis using True by (simp add: n skip_ws_char is_ws_def)
  next
    case False
    have mems: "parse_value n' (json_text (snd kv) @ r') = Some (snd kv, r')"
      if "kv \<in> set kvs" "length (json_text (snd kv)) < n'" "delim r'" for kv n' r'
    proof -
      have "snd kv \<in> Basic_BNFs.snds kv" by (cases kv) simp
      moreover have "json_representable (snd kv)" using all that(1) by (simp add: list_all_iff)
      ultimately show ?thesis using JObj.IH[OF that(1)] that(2,3) by blast
    qed
    have "length (join (map member_text kvs)) + 1 < m"
      using JObj.prems(2) by (simp add: t n)
    then have p: "parse_members m (join (map member_text kvs) @ CHR ''}'' # r) = Some (kvs, r)"
      using parse_members_join[of kvs m r] mems False by blast
    have "starts_value (member_text (hd kvs))"
      by (simp add: member_text_def quote_def starts_value_def)
    then have "starts_value (join (map member_text kvs) @ CHR ''}'' # r)"
      using False by (intro join_starts) (simp_all add: hd_map)
    then obtain c cs where s: "join (map member_text kvs) @ CHR ''}'' # r = c # cs"
      and c: "\<not> is_ws c" "c \<noteq> CHR ''}''"
      using starts_valueD by blast
    have "parse_value (Suc m) (CHR ''{'' # c # cs) =
            map_option (apfst (\<lambda>ms. JObj (object_of_members ms))) (parse_members m (c # cs))"
      using c by (simp add: skip_ws_char is_ws_def)
    then show ?thesis using p d by (simp add: t n s object_of_members_distinct)
  qed
next
  case (JFloat lit)
  then show ?case by simp
next
  case JFun
  then show ?case by simp
next
  case JCircular
  then show ?case by simp
qed

lemma JSON_round_trip:
  assumes "json_representable v"
  shows "JSON_stringify v = Inr (Some (json_text v))"
    and "json_text v \<noteq> []"
    and "JSON_parse (json_text v) = Inr v"
proof -
  show "JSON_stringify v = Inr (Some (json_text v))"
    using serialize_representable[OF assms] by (simp add: JSON_stringify_def)
  show "json_text v \<noteq> []"
    using json_text_starts[OF assms] by (simp add: starts_value_def)
  have "parse_value (Suc (length (json_text v))) (json_text v @ []) = Some (v, [])"
    using assms by (intro parse_json_text) simp_all
  then show "JSON_parse (json_text v) = Inr v"
    by (simp add: JSON_parse_def skip_ws_def)
qed

section \<open>The two browsers after the factory has run\<close>

lemma native_browser_state:
  "native_browser =
     \<lparr>errorName = ''webStorage.notification.error'', hasLocalStorage = True,
      hasSessionStorage = True, isLocalStoragePolyfilled = False,
      isSessionStoragePolyfilled = False,
      order = [''local'', ''session'', ''memory''], prefix = [], ram = [],
      ram_prototype = ObjectPrototype,
      localStorage = Native [] 100, sessionStorage = Native [] 100,
      cookie = [], broadcasts = [], warnings = []\<rparr>"
  by code_simp

lemma cookie_browser_state:
  "cookie_browser =
     \<lparr>errorName = ''webStorage.notification.error'', hasLocalStorage = True,
      hasSessionStorage = True, isLocalStoragePolyfilled = False,
      isSessionStoragePolyfilled = False,
      order = [''local'', ''session'', ''memory''], prefix = [], ram = [],
      ram_prototype = ObjectPrototype,
      localStorage = Polyfill 0, sessionStorage = Polyfill 0,
      cookie = [], broadcasts = [], warnings = []\<rparr>"
  by code_simp

section \<open>Writing an item and reading it back\<close>

lemma hex_val_hex_upper: "d < 16 \<Longrightarrow> hex_val (hex_upper d) = Some d"
  by (auto simp: hex_val_def hex_upper_def Let_def)

lemma hex_upper_not_u: "d < 16 \<Longrightarrow> hex_upper d \<noteq> CHR ''u''"
proof -
  assume "d < 16"
  then have "(of_char (hex_upper d) :: nat) \<noteq> of_char (CHR ''u'')"
    by (auto simp: hex_upper_def)
  then show ?thesis by auto
qed

lemma unicode_escape_not_u: "a \<noteq> CHR ''u'' \<Longrightarrow> unicode_escape (a # cs) = None"
  by (simp add: unicode_escape_def split: list.splits)

lemma byte_escape_pair:
  "hex_val a = Some x \<Longrightarrow> hex_val b = Some y \<Longrightarrow> byte_escape (a # b # r) = Some (x * 16 + y)"
  by (simp add: byte_escape_def)

lemma unescape_escape_unit: "unescape (escape_unit c @ r) = c # unescape r"
proof (cases "escape_keeps c")
  case True
  then have "c \<noteq> CHR ''%''" by (auto simp: escape_keeps_def Let_def)
  then have "unescape (c # r) = c # unescape r"
    by (subst unescape.simps(2)) simp
  then show ?thesis using True by (simp add: escape_unit_def)
next
  case False
  let ?a = "hex_upper (of_char c div 16)" and ?b = "hex_upper (of_char c mod 16)"
  have "(of_char c :: nat) < 256" by (rule nat_of_char_less_256)
  then have lt: "(of_char c :: nat) div 16 < 16" by arith
  have a: "hex_val ?a = Some (of_char c div 16)" using lt by (rule hex_val_hex_upper)
  have b: "hex_val ?b = Some (of_char c mod 16)" by (intro hex_val_hex_upper) simp
  have u: "unicode_escape (?a # ?b # r) = None"
    using lt by (intro unicode_escape_not_u hex_upper_not_u)
  have p: "byte_escape (?a # ?b # r) = Some (of_char c div 16 * 16 + of_char c mod 16)"
    using a b by (rule byte_escape_pair)
  have c: "char_of ((of_char c :: nat) div 16 * 16 + of_char c mod 16) = c" by simp
  have "unescape (CHR ''%'' # ?a # ?b # r) = c # unescape r"
    by (subst unescape.simps(2)) (simp add: u p c)
  then show ?thesis using False by (simp add: escape_unit_def)
qed

lemma unescape_escape: "unescape (escape s) = s"
proof -
  have "unescape (escape s @ r) = s @ unescape r" for r
    by (induction s) (simp_all add: escape_def unescape_escape_unit)
  from this[of "[]"] show ?thesis by simp
qed

lemma match_equals_nonempty: "jar \<noteq> [] \<Longrightarrow> \<exists>n. match_equals jar = Some n"
proof -
  assume "jar \<noteq> []"
  then have "CHR ''='' \<in> set (cookie_string jar)"
    by (cases jar rule: cookie_string.cases) simp_all
  then have "filter (\<lambda>c. c = CHR ''='') (cookie_string jar) \<noteq> []"
    by (simp add: filter_empty_conv)
  then show ?thesis by (simp add: match_equals_def Let_def)
qed

lemma update_nonempty: "AList.update k v al \<noteq> []"
  by (cases al) auto

lemma setItem_accepted:
  "accepts_write s k t \<Longrightarrow> \<exists>s' jar'. storage_setItem s jar k (Inr t) = Inr (s', jar')"
proof (cases s)
  case (Polyfill len)
  assume "accepts_write s k t"
  then have k: "k \<noteq> []" and d: "document_keeps (escape k) (escape t)"
    using Polyfill by (simp_all add: accepts_write_def)
  obtain n where "match_equals (assign_cookie (escape k) (escape t) jar) = Some n"
    using match_equals_nonempty[of "assign_cookie (escape k) (escape t) jar"] d
    by (auto simp: assign_cookie_def update_nonempty)
  then show ?thesis using Polyfill k by (simp add: storage_setItem_def)
qed (auto simp: accepts_write_def storage_setItem_def)

lemma getItem_after_setItem:
  "accepts_write s k t \<Longrightarrow> storage_setItem s jar k (Inr t) = Inr (s', jar') \<Longrightarrow>
   storage_getItem s' jar' k = Inr (Some t)"
proof (cases s)
  case (Polyfill len)
  assume a: "accepts_write s k t" and w: "storage_setItem s jar k (Inr t) = Inr (s', jar')"
  from a have k: "k \<noteq> []" and d: "document_keeps (escape k) (escape t)"
    using Polyfill by (simp_all add: accepts_write_def)
  from w obtain n where "s' = Polyfill (int n)"
    and j: "jar' = assign_cookie (escape k) (escape t) jar"
    using Polyfill k by (auto simp: storage_setItem_def split: option.splits)
  moreover have "map_of jar' (escape k) = Some (escape t)"
    using d by (simp add: j assign_cookie_def update_conv')
  ultimately show ?thesis
    using k by (simp add: storage_getItem_def unescape_escape)
qed (auto simp: accepts_write_def storage_setItem_def storage_getItem_def update_conv'
      split: if_splits)



lemma json_representable_round_trips: "json_representable v \<Longrightarrow> json_round_trips v"
  using JSON_round_trip(3)[of v] serialize_representable[of v]
  by (simp add: json_round_trips_def)

lemma float_round_trips: "json_round_trips (JArr [JFloat ''1.5'', JFloat ''-2e-7'', JNum 3])"
  by code_simp

lemma infinity_no_round_trip:
  "\<not> json_round_trips (JFloat ''Infinity'') \<and> \<not> json_round_trips (JFloat ''1e400'')
   \<and> JSON_parse ''9007199254740993'' = Inr (JFloat ''9007199254740993'')"
  by code_simp








section \<open>Removing the session polyfill\<close>

text \<open>
  Claim C2 says that \<open>session.isPolyfilled(true)\<close> on a polyfilled session engine returns
  \<open>true\<close>, removes the polyfill and clears the session flag, leaving the local flag
  alone. In the browser without native storage the factory installs the session polyfill
  and then resets both flags, so the call returns \<open>false\<close> and removes nothing. With
  both flags as the two polyfill functions set them, the call returns \<open>true\<close> and sets
  \<open>sessionStorage\<close> to \<open>null\<close>, but it clears the flag of the local engine and leaves the
  session flag: \<open>session.isPolyfilled()\<close> is still \<open>true\<close> afterwards and
  \<open>local.isPolyfilled()\<close> has become \<open>false\<close>.
\<close>

theorem session_polyfill_removal_bug:
  "sessionStorage cookie_browser = Polyfill 0
   \<and> call_isPolyfilled Session cookie_browser (JBool True) = (Inr False, cookie_browser)
   \<and> isSessionPolyfilled
        (cookie_browser\<lparr>isLocalStoragePolyfilled := True, isSessionStoragePolyfilled := True\<rparr>)
        (JBool True) =
       (True, cookie_browser\<lparr>isLocalStoragePolyfilled := False, isSessionStoragePolyfilled := True,
                sessionStorage := Absent\<rparr>)
   \<and> fst (isSessionPolyfilled
        (snd (isSessionPolyfilled
           (cookie_browser\<lparr>isLocalStoragePolyfilled := True, isSessionStoragePolyfilled := True\<rparr>)
           (JBool True))) JUndefined) = True
   \<and> fst (isLocalPolyfilled
        (snd (isSessionPolyfilled
           (cookie_browser\<lparr>isLocalStoragePolyfilled := True, isSessionStoragePolyfilled := True\<rparr>)
           (JBool True))) JUndefined) = False"
  by code_simp

section \<open>Values without a serialisation\<close>

lemma parse_undefined: "JSON_parse ''undefined'' = Inl SyntaxError"
  by code_simp

lemma item_text_cases:
  "serialize v = Circular \<Longrightarrow>
     item_text (JSON_stringify v) = Inl (TypeError ''Converting circular structure to JSON'')"
  "serialize v = NoText \<Longrightarrow> item_text (JSON_stringify v) = Inr ''undefined''"
  by (simp_all add: item_text_def JSON_stringify_def property_text_def)

lemma setItem_throwing_argument:
  "s \<noteq> Absent \<Longrightarrow> s \<noteq> Denied \<Longrightarrow> storage_setItem s jar k (Inl e) = Inl e"
  by (cases s) (simp_all add: storage_setItem_def)

lemma usable_iff: "usable s \<longleftrightarrow> s \<noteq> Absent \<and> s \<noteq> Denied"
  by (cases s) (simp_all add: usable_def)

text \<open>
  Claim C3, as amended. On a supported local or session engine whose storage object can
  be reached, \<open>set(k, v)\<close> for a value whose serialisation throws (a circular structure)
  returns \<open>false\<close> after one notification and leaves the store as it was. For a value
  whose serialisation is \<open>undefined\<close> (a function, \<open>undefined\<close>) and a storage object
  that accepts the item, \<open>set(k, v)\<close> returns \<open>true\<close> and stores the text \<open>undefined\<close>
  under the prefixed key; the \<open>get(k)\<close> that follows notifies the parse error and
  returns \<open>null\<close>.
\<close>

theorem set_unserializable:
  "(serialize v = Circular \<and> hasLocalStorage st \<and> usable (localStorage st) \<longrightarrow>
      setInLocal st k v =
        (False, st\<lparr>broadcasts := broadcasts st @
           [(errorName st, ''undefined: Converting circular structure to JSON'')]\<rparr>))
   \<and> (serialize v = Circular \<and> hasSessionStorage st \<and> usable (sessionStorage st) \<longrightarrow>
      setInSession st k v =
        (False, st\<lparr>broadcasts := broadcasts st @
           [(errorName st, ''undefined: Converting circular structure to JSON'')]\<rparr>))
   \<and> (serialize v = NoText \<and> hasLocalStorage st
        \<and> accepts_write (localStorage st) (prefix st @ k) ''undefined'' \<longrightarrow>
      fst (setInLocal st k v) = True
      \<and> storage_getItem (localStorage (snd (setInLocal st k v))) (cookie (snd (setInLocal st k v)))
            (prefix st @ k) = Inr (Some ''undefined'')
      \<and> getFromLocal (snd (setInLocal st k v)) k =
          (JNull, snd (croak (snd (setInLocal st k v)) SyntaxError)))
   \<and> (serialize v = NoText \<and> hasSessionStorage st
        \<and> accepts_write (sessionStorage st) (prefix st @ k) ''undefined'' \<longrightarrow>
      fst (setInSession st k v) = True
      \<and> storage_getItem (sessionStorage (snd (setInSession st k v)))
            (cookie (snd (setInSession st k v))) (prefix st @ k) = Inr (Some ''undefined'')
      \<and> getFromSession (snd (setInSession st k v)) k =
          (JNull, snd (croak (snd (setInSession st k v)) SyntaxError)))"
proof -
  have cl: "setInLocal st k v =
        (False, st\<lparr>broadcasts := broadcasts st @
           [(errorName st, ''undefined: Converting circular structure to JSON'')]\<rparr>)"
    if "serialize v = Circular" "hasLocalStorage st" "usable (localStorage st)"
    using that
    by (simp add: setInLocal_def item_text_cases setItem_throwing_argument usable_iff croak_def
        TypeError_def property_text_def)
  have cs: "setInSession st k v =
        (False, st\<lparr>broadcasts := broadcasts st @
           [(errorName st, ''undefined: Converting circular structure to JSON'')]\<rparr>)"
    if "serialize v = Circular" "hasSessionStorage st" "usable (sessionStorage st)"
    using that
    by (simp add: setInSession_def item_text_cases setItem_throwing_argument usable_iff croak_def
        TypeError_def property_text_def)
  have nl: "fst (setInLocal st k v) = True
      \<and> storage_getItem (localStorage (snd (setInLocal st k v))) (cookie (snd (setInLocal st k v)))
            (prefix st @ k) = Inr (Some ''undefined'')
      \<and> getFromLocal (snd (setInLocal st k v)) k =
          (JNull, snd (croak (snd (setInLocal st k v)) SyntaxError))"
    if n: "serialize v = NoText" and h: "hasLocalStorage st"
      and a: "accepts_write (localStorage st) (prefix st @ k) ''undefined''"
  proof -
    obtain s' jar' where w: "storage_setItem (localStorage st) (cookie st) (prefix st @ k)
        (Inr ''undefined'') = Inr (s', jar')"
      using setItem_accepted[OF a] by blast
    have set: "setInLocal st k v = (True, st\<lparr>localStorage := s', cookie := jar'\<rparr>)"
      using h w n by (simp add: setInLocal_def item_text_cases)
    have g: "storage_getItem s' jar' (prefix st @ k) = Inr (Some ''undefined'')"
      using getItem_after_setItem[OF a w] .
    show ?thesis
      using h g by (simp add: set getFromLocal_def parse_item_def parse_undefined)
  qed
  have ns: "fst (setInSession st k v) = True
      \<and> storage_getItem (sessionStorage (snd (setInSession st k v)))
            (cookie (snd (setInSession st k v))) (prefix st @ k) = Inr (Some ''undefined'')
      \<and> getFromSession (snd (setInSession st k v)) k =
          (JNull, snd (croak (snd (setInSession st k v)) SyntaxError))"
    if n: "serialize v = NoText" and h: "hasSessionStorage st"
      and a: "accepts_write (sessionStorage st) (prefix st @ k) ''undefined''"
  proof -
    obtain s' jar' where w: "storage_setItem (sessionStorage st) (cookie st) (prefix st @ k)
        (Inr ''undefined'') = Inr (s', jar')"
      using setItem_accepted[OF a] by blast
    have set: "setInSession st k v = (True, st\<lparr>sessionStorage := s', cookie := jar'\<rparr>)"
      using h w n by (simp add: setInSession_def item_text_cases)
    have g: "storage_getItem s' jar' (prefix st @ k) = Inr (Some ''undefined'')"
      using getItem_after_setItem[OF a w] .
    show ?thesis
      using h g by (simp add: set getFromSession_def parse_item_def parse_undefined)
  qed
  from cl cs nl ns show ?thesis by blast
qed

text \<open>
  The hypotheses of C3 hold in the browser with native storage, for an array holding a
  circular structure and for \<open>undefined\<close>.
\<close>

theorem set_unserializable_witness:
  "serialize (JArr [JCircular]) = Circular
   \<and> hasLocalStorage native_browser \<and> usable (localStorage native_browser)
   \<and> setInLocal native_browser ''k'' (JArr [JCircular]) =
       (False, native_browser\<lparr>broadcasts :=
          [(''webStorage.notification.error'',
            ''undefined: Converting circular structure to JSON'')]\<rparr>)
   \<and> serialize JUndefined = NoText
   \<and> hasSessionStorage native_browser
   \<and> accepts_write (sessionStorage native_browser) (prefix native_browser @ ''k'') ''undefined''
   \<and> fst (setInSession native_browser ''k'' JUndefined) = True
   \<and> fst (getFromSession (snd (setInSession native_browser ''k'' JUndefined)) ''k'') = JNull"
proof -
  have c: "serialize (JArr [JCircular]) = Circular" by code_simp
  have h: "hasLocalStorage native_browser" by code_simp
  have u: "usable (localStorage native_browser)" by code_simp
  have e: "errorName native_browser = ''webStorage.notification.error''" by code_simp
  have b: "broadcasts native_browser = []" by code_simp
  have n: "serialize JUndefined = NoText" by simp
  have hs: "hasSessionStorage native_browser" by code_simp
  have a: "accepts_write (sessionStorage native_browser) (prefix native_browser @ ''k'') ''undefined''"
    by code_simp
  from set_unserializable[of "JArr [JCircular]" native_browser "''k''"] c h u
  have p1: "setInLocal native_browser ''k'' (JArr [JCircular]) =
       (False, native_browser\<lparr>broadcasts := broadcasts native_browser @
          [(errorName native_browser, ''undefined: Converting circular structure to JSON'')]\<rparr>)"
    by blast
  from set_unserializable[of JUndefined native_browser "''k''"] n hs a
  have p2: "fst (setInSession native_browser ''k'' JUndefined) = True
     \<and> getFromSession (snd (setInSession native_browser ''k'' JUndefined)) ''k'' =
         (JNull, snd (croak (snd (setInSession native_browser ''k'' JUndefined)) SyntaxError))"
    by blast
  from p1 have q1: "setInLocal native_browser ''k'' (JArr [JCircular]) =
       (False, native_browser\<lparr>broadcasts :=
          [(''webStorage.notification.error'',
            ''undefined: Converting circular structure to JSON'')]\<rparr>)"
    by (simp add: e b)
  from p2 have q2: "fst (getFromSession (snd (setInSession native_browser ''k'' JUndefined)) ''k'') = JNull"
    by simp
  from c h u q1 n hs a p2 q2 show ?thesis by blast
qed

text \<open>
  Claim C3 as stated, that \<open>set\<close> of a function value returns \<open>false\<close>, fails on both
  native engines: \<open>JSON.stringify\<close> returns \<open>undefined\<close> without throwing, and \<open>set\<close>
  stores the text \<open>undefined\<close> and returns \<open>true\<close>.
\<close>

theorem set_unserializable_counterexample:
  "serialize JFun = NoText
   \<and> setInLocal native_browser ''k'' JFun =
       (True, native_browser\<lparr>localStorage := Native [(''k'', ''undefined'')] 100\<rparr>)
   \<and> setInSession native_browser ''k'' JFun =
       (True, native_browser\<lparr>sessionStorage := Native [(''k'', ''undefined'')] 100\<rparr>)"
  by code_simp

section \<open>Exceptions of the backend\<close>

text \<open>
  Claim C4 says that no public operation lets an exception through, and that \<open>key(index)\<close>
  returns \<open>null\<close> when the backend's \<open>key\<close> throws. With local and session storage
  supported when the factory ran and access denied afterwards, \<open>key\<close> and \<open>length\<close>
  of both engines and of the generic interface end in the backend's exception, without
  a notification; \<open>get\<close>, which wraps the backend call in \<open>try\<close>, notifies and returns
  \<open>null\<close>.
\<close>

theorem key_propagates_exception:
  "hasLocalStorage (native_browser\<lparr>localStorage := Denied, sessionStorage := Denied\<rparr>)
   \<and> keyInLocal (native_browser\<lparr>localStorage := Denied, sessionStorage := Denied\<rparr>) 0 =
       Inl SecurityError
   \<and> keyInSession (native_browser\<lparr>localStorage := Denied, sessionStorage := Denied\<rparr>) 0 =
       Inl SecurityError
   \<and> webStorage_key (native_browser\<lparr>localStorage := Denied, sessionStorage := Denied\<rparr>) 0
        JUndefined = Inl SecurityError
   \<and> lengthInLocal (native_browser\<lparr>localStorage := Denied, sessionStorage := Denied\<rparr>) =
       Inl SecurityError
   \<and> webStorage_length (native_browser\<lparr>localStorage := Denied, sessionStorage := Denied\<rparr>)
        JUndefined = Inl SecurityError
   \<and> getFromLocal (native_browser\<lparr>localStorage := Denied, sessionStorage := Denied\<rparr>) ''k'' =
       (JNull, native_browser\<lparr>localStorage := Denied, sessionStorage := Denied,
          broadcasts := [(''webStorage.notification.error'', ''undefined: The operation is insecure.'')]\<rparr>)"
  by code_simp

section \<open>The generic getter\<close>

lemma parse_item_broadcasts:
  "\<exists>b'. parse_item (st\<lparr>broadcasts := b\<rparr>) r = (fst (parse_item st r), st\<lparr>broadcasts := b'\<rparr>)"
  by (auto simp: parse_item_def croak_def split: sum.splits option.splits)

lemma engine_get_broadcasts:
  "\<exists>b'. engine_get e (st\<lparr>broadcasts := b\<rparr>) k = (fst (engine_get e st k), st\<lparr>broadcasts := b'\<rparr>)"
proof (cases e)
  case Local
  show ?thesis
  proof (cases "hasLocalStorage st")
    case True
    then show ?thesis
      using parse_item_broadcasts[where st=st and b=b and r="storage_getItem (localStorage st) (cookie st) (prefix st @ k)"]
      by (simp add: Local engine_get_def getFromLocal_def)
  next
    case False
    then show ?thesis
      by (auto simp: Local engine_get_def getFromLocal_def intro: exI[of _ b])
  qed
next
  case Session
  show ?thesis
  proof (cases "hasSessionStorage st")
    case True
    then show ?thesis
      using parse_item_broadcasts[where st=st and b=b and r="storage_getItem (sessionStorage st) (cookie st) (prefix st @ k)"]
      by (simp add: Session engine_get_def getFromSession_def)
  next
    case False
    then show ?thesis
      by (auto simp: Session engine_get_def getFromSession_def intro: exI[of _ b])
  qed
next
  case Memory
  then show ?thesis
    by (auto simp: engine_get_def getFromMemory_def split: option.splits inherited.splits
        intro: exI[of _ b])
qed

lemma engine_isSupported_broadcasts:
  "engine_isSupported (st\<lparr>broadcasts := b\<rparr>) e = engine_isSupported st e"
  by (cases e) (simp_all add: engine_isSupported_def)

lemma member_of_valid: "engine_name_test name \<Longrightarrow> \<exists>e. webStorage_member name = Some e"
  by (auto simp: engine_name_test_def webStorage_member_def)

lemma get_loop_all:
  "list_all engine_name_test names \<Longrightarrow>
   fst (get_loop True k names (st\<lparr>broadcasts := b\<rparr>)) =
     Inr (first_non_null (map (\<lambda>e. fst (engine_get e st k))
            (filter (engine_isSupported st) (List.map_filter webStorage_member names))))"
proof (induction names arbitrary: b)
  case Nil
  show ?case by (simp add: first_non_null_def)
next
  case (Cons name names)
  from Cons.prems obtain e where e: "webStorage_member name = Some e"
    using member_of_valid by auto
  from Cons.prems have rest: "list_all engine_name_test names" by simp
  show ?case
  proof (cases "engine_isSupported st e")
    case False
    then show ?thesis
      using e Cons.IH[OF rest, where b=b]
      by (simp add: engine_isSupported_broadcasts)
  next
    case True
    obtain b' where g: "engine_get e (st\<lparr>broadcasts := b\<rparr>) k = (fst (engine_get e st k), st\<lparr>broadcasts := b'\<rparr>)"
      using engine_get_broadcasts by blast
    show ?thesis
    proof (cases "fst (engine_get e st k) = JNull")
      case True
      then show ?thesis
        using e \<open>engine_isSupported st e\<close> g Cons.IH[OF rest, where b=b']
        by (simp add: engine_isSupported_broadcasts first_non_null_def)
    next
      case False
      then show ?thesis
        using e \<open>engine_isSupported st e\<close> g
        by (simp add: engine_isSupported_broadcasts first_non_null_def)
    qed
  qed
qed

lemma first_non_null_iff: "first_non_null vs = JNull \<longleftrightarrow> (\<forall>v \<in> set vs. v = JNull)"
  by (induction vs) (auto simp: first_non_null_def)

text \<open>
  Claim C5. With the order holding engine names, the generic \<open>get(k)\<close> with the default
  flag returns the first result that is not \<open>null\<close> among the results of the supported
  engines, taken in the configured order; it returns \<open>null\<close> exactly when every engine
  of the order is unsupported or gives \<open>null\<close> for \<open>k\<close>.
\<close>

theorem get_first_non_null:
  assumes "order_valid st"
  shows "fst (webStorage_get st k JUndefined) =
           Inr (first_non_null (map (\<lambda>e. fst (engine_get e st k)) (supported_engines st)))
       \<and> (fst (webStorage_get st k JUndefined) = Inr JNull \<longleftrightarrow>
            (\<forall>e \<in> set (order_engines st).
               \<not> engine_isSupported st e \<or> fst (engine_get e st k) = JNull))"
proof -
  have "st\<lparr>broadcasts := broadcasts st\<rparr> = st" by simp
  then have 1: "fst (webStorage_get st k JUndefined) =
           Inr (first_non_null (map (\<lambda>e. fst (engine_get e st k)) (supported_engines st)))"
    using get_loop_all[where names="order st" and k=k and st=st and b="broadcasts st"] assms
    by (simp add: webStorage_get_def all_engines_def order_valid_def supported_engines_def
        order_engines_def)
  have 2: "fst (webStorage_get st k JUndefined) = Inr JNull \<longleftrightarrow>
           (\<forall>e \<in> set (order_engines st).
              \<not> engine_isSupported st e \<or> fst (engine_get e st k) = JNull)"
    unfolding 1 by (auto simp: first_non_null_iff supported_engines_def)
  from 1 2 show ?thesis by simp
qed

text \<open>
  The hypothesis of C5 holds after storing a number in the session engine of the browser
  with native storage: the local engine gives \<open>null\<close> and the generic getter finds the
  number.
\<close>

theorem get_first_non_null_witness:
  "order_valid (snd (setInSession native_browser ''x'' (JNum 1)))
   \<and> fst (webStorage_get (snd (setInSession native_browser ''x'' (JNum 1))) ''x'' JUndefined) =
       Inr (JNum 1)
   \<and> fst (engine_get Local (snd (setInSession native_browser ''x'' (JNum 1))) ''x'') = JNull
   \<and> fst (webStorage_get (snd (setInSession native_browser ''x'' (JNum 1))) ''y'' JUndefined) =
       Inr JNull"
proof -
  let ?st = "snd (setInSession native_browser ''x'' (JNum 1))"
  have v: "order_valid ?st" by code_simp
  have x: "first_non_null (map (\<lambda>e. fst (engine_get e ?st ''x'')) (supported_engines ?st)) =
             JNum 1"
    by code_simp
  have y: "first_non_null (map (\<lambda>e. fst (engine_get e ?st ''y'')) (supported_engines ?st)) =
             JNull"
    by code_simp
  have l: "fst (engine_get Local ?st ''x'') = JNull" by code_simp
  from get_first_non_null[OF v, of "''x''"] x
  have gx: "fst (webStorage_get ?st ''x'' JUndefined) = Inr (JNum 1)" by simp
  from get_first_non_null[OF v, of "''y''"] y
  have gy: "fst (webStorage_get ?st ''y'' JUndefined) = Inr JNull" by simp
  from v gx l gy show ?thesis by blast
qed

section \<open>The generic setter on the first supported engine\<close>

lemma set_loop_first:
  "list_all engine_name_test names \<Longrightarrow>
   set_loop False k v names False st =
     (case filter (engine_isSupported st) (List.map_filter webStorage_member names) of
        [] \<Rightarrow> (Inr False, st)
      | e # es \<Rightarrow> (Inr (fst (engine_set e st k v)), snd (engine_set e st k v)))"
proof (induction names)
  case Nil
  show ?case by simp
next
  case (Cons name names)
  then obtain e where e: "webStorage_member name = Some e"
    using member_of_valid by auto
  from Cons show ?case
    by (cases "engine_isSupported st e") (simp_all add: e Let_def)
qed

lemma storage_setItem_frame:
  "storage_setItem s jar k a = Inr (s', jar') \<Longrightarrow> \<not> is_polyfill s \<Longrightarrow> jar' = jar"
  by (cases s) (auto simp: storage_setItem_def is_polyfill_def split: sum.splits if_splits)

lemma setInLocal_frame:
  "sessionStorage (snd (setInLocal st k v)) = sessionStorage st"
  "ram (snd (setInLocal st k v)) = ram st"
  "\<not> is_polyfill (localStorage st) \<Longrightarrow> cookie (snd (setInLocal st k v)) = cookie st"
  by (auto simp: setInLocal_def croak_def split: sum.splits dest: storage_setItem_frame)

lemma setInSession_frame:
  "localStorage (snd (setInSession st k v)) = localStorage st"
  "ram (snd (setInSession st k v)) = ram st"
  "\<not> is_polyfill (sessionStorage st) \<Longrightarrow> cookie (snd (setInSession st k v)) = cookie st"
  by (auto simp: setInSession_def croak_def split: sum.splits dest: storage_setItem_frame)

lemma setInMemory_frame:
  "localStorage (snd (setInMemory st k v)) = localStorage st"
  "sessionStorage (snd (setInMemory st k v)) = sessionStorage st"
  "cookie (snd (setInMemory st k v)) = cookie st"
  by (simp_all add: setInMemory_def)

lemma storage_entries_not_polyfill:
  "\<not> is_polyfill s \<Longrightarrow> storage_entries s jar = storage_entries s jar'"
  by (cases s) (simp_all add: storage_entries_def is_polyfill_def)

lemma engine_set_frame:
  assumes "e' \<noteq> e" and "\<not> (cookie_backed st e \<and> cookie_backed st e')"
  shows "engine_contents e' (snd (engine_set e st k v)) = engine_contents e' st"
proof (cases e)
  case Local
  show ?thesis
  proof (cases e')
    case Session
    show ?thesis
    proof (cases "is_polyfill (localStorage st)")
      case True
      then have "\<not> is_polyfill (sessionStorage st)"
        using assms(2) Local Session by (simp add: cookie_backed_def)
      then show ?thesis
        using storage_entries_not_polyfill[of "sessionStorage st"]
        by (simp add: Local Session engine_contents_def engine_set_def setInLocal_frame)
    next
      case False
      then show ?thesis
        by (simp add: Local Session engine_contents_def engine_set_def setInLocal_frame)
    qed
  qed (use assms(1) Local in \<open>simp_all add: engine_contents_def engine_set_def setInLocal_frame\<close>)
next
  case Session
  show ?thesis
  proof (cases e')
    case Local
    show ?thesis
    proof (cases "is_polyfill (sessionStorage st)")
      case True
      then have "\<not> is_polyfill (localStorage st)"
        using assms(2) Local Session by (simp add: cookie_backed_def)
      then show ?thesis
        using storage_entries_not_polyfill[of "localStorage st"]
        by (simp add: Local Session engine_contents_def engine_set_def setInSession_frame)
    next
      case False
      then show ?thesis
        by (simp add: Local Session engine_contents_def engine_set_def setInSession_frame)
    qed
  qed (use assms(1) Session in \<open>simp_all add: engine_contents_def engine_set_def setInSession_frame\<close>)
next
  case Memory
  then show ?thesis
    using assms(1)
    by (cases e') (simp_all add: engine_contents_def engine_set_def setInMemory_frame)
qed

text \<open>
  Claim C6, as amended. With the order holding engine names and the all-engines flag
  false or missing, the generic \<open>set(k, v)\<close> is one call of \<open>set\<close> on the first
  supported engine of the order: it returns that engine's result and ends in that
  engine's state. Every other engine holds what it held before, unless that engine and
  the engine written to are both cookie polyfills, which share the document's cookies.
  If no engine of the order is supported it returns \<open>false\<close> and changes nothing.
\<close>

theorem set_first_engine_only:
  assumes "order_valid st" and "\<not> all_engines a False"
  shows "(first_supported st = None \<longrightarrow> webStorage_set st k v a = (Inr False, st))
       \<and> (\<forall>e. first_supported st = Some e \<longrightarrow>
             webStorage_set st k v a = (Inr (fst (engine_set e st k v)), snd (engine_set e st k v))
             \<and> (\<forall>e'. e' \<noteq> e \<and> \<not> (cookie_backed st e \<and> cookie_backed st e') \<longrightarrow>
                   engine_contents e' (snd (webStorage_set st k v a)) = engine_contents e' st))"
proof -
  have loop: "webStorage_set st k v a =
     (case supported_engines st of
        [] \<Rightarrow> (Inr False, st)
      | e # es \<Rightarrow> (Inr (fst (engine_set e st k v)), snd (engine_set e st k v)))"
    using assms set_loop_first[of "order st" k v st]
    by (simp add: webStorage_set_def order_valid_def supported_engines_def order_engines_def)
  show ?thesis
    using loop engine_set_frame
    by (auto simp: first_supported_def split: list.splits)
qed

text \<open>
  The hypotheses of C6 hold in the browser with native storage: the item goes to the
  local engine and the session engine holds what it held.
\<close>

theorem set_first_engine_only_witness:
  "order_valid native_browser
   \<and> \<not> all_engines (JBool False) False
   \<and> first_supported native_browser = Some Local
   \<and> webStorage_set native_browser ''x'' (JNum 1) (JBool False) =
       (Inr True, native_browser\<lparr>localStorage := Native [(''x'', ''1'')] 100\<rparr>)
   \<and> \<not> (cookie_backed native_browser Local \<and> cookie_backed native_browser Session)
   \<and> engine_contents Session (snd (webStorage_set native_browser ''x'' (JNum 1) (JBool False))) =
       engine_contents Session native_browser"
proof -
  have v: "order_valid native_browser" by code_simp
  have f: "\<not> all_engines (JBool False) False" by code_simp
  have s: "first_supported native_browser = Some Local" by code_simp
  have c: "\<not> (cookie_backed native_browser Local \<and> cookie_backed native_browser Session)"
    by code_simp
  have r: "webStorage_set native_browser ''x'' (JNum 1) (JBool False) =
       (Inr True, native_browser\<lparr>localStorage := Native [(''x'', ''1'')] 100\<rparr>)"
    by code_simp
  from set_first_engine_only[OF v f, of "''x''" "JNum 1"] s c
  have "engine_contents Session (snd (webStorage_set native_browser ''x'' (JNum 1) (JBool False))) =
       engine_contents Session native_browser"
    by blast
  with v f s c r show ?thesis by blast
qed

text \<open>
  Claim C6 as stated, that every other engine keeps its contents, fails in the browser
  without native storage: the generic \<open>set\<close> writes through the local polyfill, and the
  session polyfill, which reads the same cookies, holds the new item afterwards.
\<close>

theorem set_first_engine_only_counterexample:
  "order_valid cookie_browser
   \<and> \<not> all_engines (JBool False) False
   \<and> first_supported cookie_browser = Some Local
   \<and> fst (webStorage_set cookie_browser ''x'' (JNum 1) (JBool False)) = Inr True
   \<and> engine_contents Session cookie_browser = Items []
   \<and> engine_contents Session (snd (webStorage_set cookie_browser ''x'' (JNum 1) (JBool False))) =
       Items [(''x'', ''1'')]
   \<and> fst (getFromSession cookie_browser ''x'') = JNull
   \<and> fst (getFromSession (snd (webStorage_set cookie_browser ''x'' (JNum 1) (JBool False))) ''x'') =
       JNum 1"
  by code_simp

section \<open>The order setter\<close>

lemma order_loop_filter: "order_loop names acc = acc @ filter engine_name_test names"
  by (induction names arbitrary: acc) auto

text \<open>
  Claim C7. Called with a sequence \<open>s\<close>, \<open>order\<close> returns the previous order and
  replaces the configured order by the elements of \<open>s\<close> that are \<open>local\<close>, \<open>session\<close> or
  \<open>memory\<close>, in their relative order, dropping every other element; reading the order
  back returns that list, and \<open>memory, bogus, session\<close> reads back as \<open>memory, session\<close>.
\<close>

theorem order_setter_filters:
  "webStorage_order st (Some s) =
     (order st, st\<lparr>order := filter (\<lambda>n. n = ''local'' \<or> n = ''session'' \<or> n = ''memory'') s\<rparr>)
   \<and> fst (webStorage_order (snd (webStorage_order st (Some s))) None) =
       filter (\<lambda>n. n = ''local'' \<or> n = ''session'' \<or> n = ''memory'') s
   \<and> fst (webStorage_order (snd (webStorage_order st (Some [''memory'', ''bogus'', ''session'']))) None) =
       [''memory'', ''session'']"
proof -
  have f: "engine_name_test = (\<lambda>n. n = ''local'' \<or> n = ''session'' \<or> n = ''memory'')"
    by (rule ext) (simp add: engine_name_test_def)
  have set_order:
    "webStorage_order st (Some xs) = (order st, st\<lparr>order := filter engine_name_test xs\<rparr>)" for xs
    by (simp add: webStorage_order_def order_loop_filter)
  have read: "fst (webStorage_order st' None) = order st'" for st'
    by (simp add: webStorage_order_def)
  show ?thesis
    unfolding set_order read by (simp add: f)
qed

lemma order_valid_factory: "order_valid (webStorage_factory l s c)"
  by (simp add: webStorage_factory_def order_valid_def default_order_def engine_name_test_def
      Let_def)

lemma order_valid_setter: "order_valid (snd (webStorage_order st (Some names)))"
  by (simp add: webStorage_order_def order_valid_def order_loop_filter list_all_iff)

lemma order_valid_getter: "order_valid st \<Longrightarrow> order_valid (snd (webStorage_order st None))"
  by (simp add: webStorage_order_def)

section \<open>The polyfill status of the in-memory engine\<close>

text \<open>
  Claim C8 says that calling \<open>isPolyfilled(removeFlag)\<close> on the in-memory engine returns
  \<open>false\<close> and changes nothing. The member is the boolean \<open>false\<close>, not a function: for
  every argument the call throws a \<open>TypeError\<close> (and changes nothing).
\<close>

theorem memory_isPolyfilled_not_callable:
  "call_isPolyfilled Memory st removeFlag =
     (Inl (TypeError ''isPolyfilled is not a function''), st)"
  by (simp add: call_isPolyfilled_def engine_isPolyfilled_def)

section \<open>\<open>has\<close> is \<open>get\<close> compared with \<open>null\<close>\<close>

lemma parse_null: "JSON_parse ''null'' = Inr JNull"
  by (simp add: JSON_parse_def skip_ws_def is_ws_def)

text \<open>
  Claim C9. For every key and every all-engines flag the generic \<open>has\<close> is the generic
  \<open>get\<close> compared with \<open>null\<close>, and each engine's \<open>has\<close> is that engine's \<open>get\<close>
  compared with \<open>null\<close>, with the same effect on the state. So a key whose stored value
  is \<open>null\<close> is reported as absent: in the in-memory engine after \<open>set(k, null)\<close>, and in
  a native local store holding the text \<open>null\<close> under the prefixed key.
\<close>

theorem has_iff_get_not_null:
  "webStorage_has st k a =
     (case fst (webStorage_get st k a) of
        Inl e \<Rightarrow> (Inl e, snd (webStorage_get st k a))
      | Inr v \<Rightarrow> (Inr (v \<noteq> JNull), snd (webStorage_get st k a)))
   \<and> hasInLocal st k = (fst (getFromLocal st k) \<noteq> JNull, snd (getFromLocal st k))
   \<and> hasInSession st k = (fst (getFromSession st k) \<noteq> JNull, snd (getFromSession st k))
   \<and> hasInMemory st k = (fst (getFromMemory st k) \<noteq> JNull, snd (getFromMemory st k))
   \<and> \<not> fst (hasInMemory (snd (setInMemory st k JNull)) k)
   \<and> (hasLocalStorage st \<and> localStorage st = Native items quota
        \<and> map_of items (prefix st @ k) = Some ''null'' \<longrightarrow> \<not> fst (hasInLocal st k))"
proof -
  have g: "webStorage_has st k a =
     (case fst (webStorage_get st k a) of
        Inl e \<Rightarrow> (Inl e, snd (webStorage_get st k a))
      | Inr v \<Rightarrow> (Inr (v \<noteq> JNull), snd (webStorage_get st k a)))"
    by (auto simp: webStorage_has_def split: sum.splits)
  have l: "hasInLocal st k = (fst (getFromLocal st k) \<noteq> JNull, snd (getFromLocal st k))"
    by (auto simp: hasInLocal_def)
  have s: "hasInSession st k = (fst (getFromSession st k) \<noteq> JNull, snd (getFromSession st k))"
    by (auto simp: hasInSession_def)
  have m: "hasInMemory st k = (fst (getFromMemory st k) \<noteq> JNull, snd (getFromMemory st k))"
    by (auto simp: hasInMemory_def)
  have mn: "\<not> fst (hasInMemory (snd (setInMemory st k JNull)) k)"
    by (simp add: hasInMemory_def getFromMemory_def setInMemory_def define_property_def
        update_conv' inherit_def)
  have ln: "\<not> fst (hasInLocal st k)"
    if "hasLocalStorage st" "localStorage st = Native items quota"
       "map_of items (prefix st @ k) = Some ''null''"
    using that
    by (simp add: hasInLocal_def getFromLocal_def storage_getItem_def parse_item_def parse_null)
  from g l s m mn ln show ?thesis by blast
qed

text \<open>
  The hypothesis of C9 holds after storing \<open>null\<close> in the local engine of the browser
  with native storage.
\<close>

theorem has_iff_get_not_null_witness:
  "hasLocalStorage (snd (setInLocal native_browser ''k'' JNull))
   \<and> localStorage (snd (setInLocal native_browser ''k'' JNull)) = Native [(''k'', ''null'')] 100
   \<and> map_of [(''k'', ''null'')] (prefix (snd (setInLocal native_browser ''k'' JNull)) @ ''k'') =
       Some ''null''
   \<and> \<not> fst (hasInLocal (snd (setInLocal native_browser ''k'' JNull)) ''k'')"
proof -
  let ?st = "snd (setInLocal native_browser ''k'' JNull)"
  have h: "hasLocalStorage ?st" by code_simp
  have l: "localStorage ?st = Native [(''k'', ''null'')] 100" by code_simp
  have m: "map_of [(''k'', ''null'')] (prefix ?st @ ''k'') = Some ''null''" by code_simp
  from has_iff_get_not_null[of ?st "''k''" JUndefined "[(''k'', ''null'')]" 100] h l m
  have "\<not> fst (hasInLocal ?st ''k'')" by blast
  with h l m show ?thesis by blast
qed

section \<open>The deprecated \<open>add\<close>\<close>

lemma setInLocal_warnings:
  "setInLocal (st\<lparr>warnings := w\<rparr>) k v =
     (fst (setInLocal st k v), (snd (setInLocal st k v))\<lparr>warnings := w\<rparr>)"
  by (simp add: setInLocal_def croak_def split: sum.splits prod.splits)

lemma setInSession_warnings:
  "setInSession (st\<lparr>warnings := w\<rparr>) k v =
     (fst (setInSession st k v), (snd (setInSession st k v))\<lparr>warnings := w\<rparr>)"
  by (simp add: setInSession_def croak_def split: sum.splits prod.splits)

lemma setInMemory_warnings:
  "setInMemory (st\<lparr>warnings := w\<rparr>) k v =
     (fst (setInMemory st k v), (snd (setInMemory st k v))\<lparr>warnings := w\<rparr>)"
  by (simp add: setInMemory_def)

lemma engine_set_warnings:
  "engine_set e (st\<lparr>warnings := w\<rparr>) k v =
     (fst (engine_set e st k v), (snd (engine_set e st k v))\<lparr>warnings := w\<rparr>)"
  by (cases e) (simp_all add: engine_set_def setInLocal_warnings setInSession_warnings
      setInMemory_warnings)

lemma engine_isSupported_warnings:
  "engine_isSupported (st\<lparr>warnings := w\<rparr>) e = engine_isSupported st e"
  by (cases e) (simp_all add: engine_isSupported_def)

lemma set_loop_warnings:
  "set_loop a k v names r (st\<lparr>warnings := w\<rparr>) =
     (fst (set_loop a k v names r st), (snd (set_loop a k v names r st))\<lparr>warnings := w\<rparr>)"
proof (induction names arbitrary: r st)
  case Nil
  show ?case by simp
next
  case (Cons name names)
  show ?case
  proof (cases "webStorage_member name")
    case None
    then show ?thesis by simp
  next
    case (Some e)
    show ?thesis
      using Some Cons.IH
      by (cases a) (simp_all add: engine_isSupported_warnings engine_set_warnings Let_def)
  qed
qed

text \<open>
  Claim C10. For every key, value and all-engines flag the generic \<open>add\<close> returns what
  the generic \<open>set\<close> returns and ends in the state \<open>set\<close> ends in, but for the
  deprecation warning on the console; and so does each engine's \<open>add\<close> with that
  engine's \<open>set\<close>.
\<close>

theorem add_is_set:
  "webStorage_add st k v a =
     (fst (webStorage_set st k v a),
      (snd (webStorage_set st k v a))\<lparr>warnings := warnings st @ [addDeprecatedWarning]\<rparr>)
   \<and> engine_add e st k v =
     (fst (engine_set e st k v),
      (snd (engine_set e st k v))\<lparr>warnings := warnings st @ [addDeprecatedWarning]\<rparr>)"
proof -
  have g: "webStorage_add st k v a =
     (fst (webStorage_set st k v a),
      (snd (webStorage_set st k v a))\<lparr>warnings := warnings st @ [addDeprecatedWarning]\<rparr>)"
    by (simp add: webStorage_add_def webStorage_set_def console_warn_def set_loop_warnings)
  have "engine_add e st k v = engine_set e (console_warn st addDeprecatedWarning) k v"
    by (cases e) (simp_all add: engine_add_def engine_set_def addToLocal_def addToSession_def
        addToMemory_def)
  then have d: "engine_add e st k v =
     (fst (engine_set e st k v),
      (snd (engine_set e st k v))\<lparr>warnings := warnings st @ [addDeprecatedWarning]\<rparr>)"
    by (simp add: console_warn_def engine_set_warnings)
  from g d show ?thesis by simp
qed

end
